theory Spec2Isabelle
  imports Main
begin

section \<open>Values, series and data frames\<close>

text \<open>
  The stage-two lambda (\<^verbatim>\<open>s3_to_rds_lambda.py\<close>) reads a CSV into a pandas data frame,
  coerces its columns in place, normalises a fixed list of datetime columns and upserts
  the records into PostgreSQL. A cell of the frame is one of the Python scalars the program
  can meet. A float is identified by its \<^verbatim>\<open>str(x)\<close> rendering (the shortest repr), which
  is the only thing the program ever asks of a float; the missing value of the CSV reader
  is the float \<^verbatim>\<open>nan\<close>. A timestamp is the number of seconds since 1970-01-01T00:00:00
  of its wall clock, together with its timezone tag.
\<close>

text \<open>A timestamp is naive or timezone-aware; UTC is the only timezone the program
  attaches.\<close>

datatype tz = Naive | UTC

datatype cell =
    StrV string
  | IntV int
  | FloatV string
  | BoolV bool
  | TsV int tz
  | NaT
  | NoneV

abbreviation NaN :: cell where
  "NaN \<equiv> FloatV ''nan''"

type_synonym series = "cell list"

text \<open>A data frame is its columns in order, each a name with its series.\<close>

type_synonym dataframe = "(string \<times> series) list"

definition columns :: "dataframe \<Rightarrow> string list" where
  "columns df = map fst df"

text \<open>The assignment \<^verbatim>\<open>df[column] = xs\<close>: replace the column, or append a new one.\<close>

fun set_column :: "string \<Rightarrow> series \<Rightarrow> dataframe \<Rightarrow> dataframe" where
  "set_column c xs [] = [(c, xs)]"
| "set_column c xs ((k, v) # df) =
     (if k = c then (c, xs) # df else (k, v) # set_column c xs df)"

text \<open>What a Python function hands back: the program's functions return \<^verbatim>\<open>None\<close>.\<close>

datatype pyval = PyNone | PyInt int

datatype cause =
    UnsafeCast
  | AlreadyTzAware
  | NotSerializable
  | KeyError
  | UndefinedTable
  | MissingParameter
  | SyntaxError
  | Rejected

datatype error =
    ConvertFailed string string cause
  | DatetimeFailed string cause
  | UpsertFailed cause


section \<open>Python and pandas primitives\<close>

text \<open>\<^verbatim>\<open>sub in s\<close> on strings.\<close>

fun str_contains :: "string \<Rightarrow> string \<Rightarrow> bool" where
  "str_contains sub [] = (sub = [])"
| "str_contains sub (c # s) = (take (length sub) (c # s) = sub \<or> str_contains sub s)"

text \<open>
  \<^verbatim>\<open>s.replace(old, new)\<close> for a non-empty \<^verbatim>\<open>old\<close>: every non-overlapping occurrence,
  scanning from the left.
\<close>

function py_replace :: "string \<Rightarrow> string \<Rightarrow> string \<Rightarrow> string" where
  "py_replace old new [] = []"
| "py_replace old new (c # s) =
     (if old \<noteq> [] \<and> take (length old) (c # s) = old
      then new @ py_replace old new (drop (length old) (c # s))
      else c # py_replace old new s)"
  by pat_completeness auto
termination
  by (relation "measure (\<lambda>(old, new, s). length s)") (auto simp: neq_Nil_conv)

text \<open>Decimal rendering of integers, as \<^verbatim>\<open>str(n)\<close> gives it.\<close>

definition digit_char :: "nat \<Rightarrow> char" where
  "digit_char d = ''0123456789'' ! d"

fun show_nat :: "nat \<Rightarrow> string" where
  "show_nat n = (if n < 10 then [digit_char n] else show_nat (n div 10) @ [digit_char (n mod 10)])"

declare show_nat.simps [simp del]

definition show_int :: "int \<Rightarrow> string" where
  "show_int i = (if i < 0 then CHR ''-'' # show_nat (nat (- i)) else show_nat (nat i))"

definition pad2 :: "int \<Rightarrow> string" where
  "pad2 i = (if i < 10 then CHR ''0'' # show_int i else show_int i)"

definition pad4 :: "int \<Rightarrow> string" where
  "pad4 i = replicate (4 - length (show_int i)) CHR ''0'' @ show_int i"

subsection \<open>Calendar arithmetic\<close>

text \<open>Days between 1970-01-01 and a date of the proleptic Gregorian calendar, and back.\<close>

definition days_from_civil :: "int \<Rightarrow> int \<Rightarrow> int \<Rightarrow> int" where
  "days_from_civil y m d =
     (let y' = (if m \<le> 2 then y - 1 else y);
          era = y' div 400;
          yoe = y' - era * 400;
          doy = (153 * (if m > 2 then m - 3 else m + 9) + 2) div 5 + d - 1;
          doe = yoe * 365 + yoe div 4 - yoe div 100 + doy
      in era * 146097 + doe - 719468)"

definition civil_from_days :: "int \<Rightarrow> int \<times> int \<times> int" where
  "civil_from_days z0 =
     (let z = z0 + 719468;
          era = z div 146097;
          doe = z - era * 146097;
          yoe = (doe - doe div 1460 + doe div 36524 - doe div 146096) div 365;
          doy = doe - (365 * yoe + yoe div 4 - yoe div 100);
          mp = (5 * doy + 2) div 153;
          d = doy - (153 * mp + 2) div 5 + 1;
          m = (if mp < 10 then mp + 3 else mp - 9);
          y = yoe + era * 400 + (if m \<le> 2 then 1 else 0)
      in (y, m, d))"

definition epoch_seconds :: "int \<Rightarrow> int \<Rightarrow> int \<Rightarrow> int \<Rightarrow> int \<Rightarrow> int \<Rightarrow> int" where
  "epoch_seconds y m d h mi s = ((days_from_civil y m d * 24 + h) * 60 + mi) * 60 + s"

definition is_leap :: "int \<Rightarrow> bool" where
  "is_leap y = (y mod 4 = 0 \<and> (y mod 100 \<noteq> 0 \<or> y mod 400 = 0))"

definition days_in_month :: "int \<Rightarrow> int \<Rightarrow> int" where
  "days_in_month y m =
     (if m = 2 then (if is_leap y then 29 else 28)
      else if m = 4 \<or> m = 6 \<or> m = 9 \<or> m = 11 then 30 else 31)"

text \<open>\<^verbatim>\<open>str(ts)\<close> of a timestamp: ISO date and time separated by a blank, with the offset
  when the timestamp is timezone-aware.\<close>

definition show_timestamp :: "int \<Rightarrow> tz \<Rightarrow> string" where
  "show_timestamp t z =
     (let days = t div 86400; r = t mod 86400;
          (y, m, d) = civil_from_days days
      in pad4 y @ ''-'' @ pad2 m @ ''-'' @ pad2 d @ '' '' @
         pad2 (r div 3600) @ '':'' @ pad2 (r mod 3600 div 60) @ '':'' @ pad2 (r mod 60) @
         (case z of Naive \<Rightarrow> [] | UTC \<Rightarrow> ''+00:00''))"

subsection \<open>Scalar conversions\<close>

text \<open>\<^verbatim>\<open>str(x)\<close>, which \<^verbatim>\<open>astype(str)\<close> applies to every cell.\<close>

fun py_str :: "cell \<Rightarrow> string" where
  "py_str (StrV s) = s"
| "py_str (IntV i) = show_int i"
| "py_str (FloatV r) = r"
| "py_str (BoolV b) = (if b then ''True'' else ''False'')"
| "py_str (TsV t z) = show_timestamp t z"
| "py_str NaT = ''NaT''"
| "py_str NoneV = ''None''"

text \<open>Truthiness, which \<^verbatim>\<open>astype(bool)\<close> applies to every cell.\<close>

fun py_bool :: "cell \<Rightarrow> bool" where
  "py_bool (StrV s) = (s \<noteq> [])"
| "py_bool (IntV i) = (i \<noteq> 0)"
| "py_bool (FloatV r) = (r \<noteq> ''0.0'' \<and> r \<noteq> ''-0.0'')"
| "py_bool (BoolV b) = b"
| "py_bool (TsV t z) = True"
| "py_bool NaT = True"
| "py_bool NoneV = False"

text \<open>\<^verbatim>\<open>pd.isna(x)\<close> on a scalar.\<close>

fun isna :: "cell \<Rightarrow> bool" where
  "isna NoneV = True"
| "isna NaT = True"
| "isna (FloatV r) = (r = ''nan'')"
| "isna _ = False"

subsection \<open>Library functions whose grammar the program does not fix\<close>

text \<open>
  What the numeric parser makes of one value: an integer literal, read exactly; a
  floating-point number whose value is a whole number (as \<^verbatim>\<open>42.0\<close> or \<^verbatim>\<open>1e3\<close>); a
  number that is not whole (a fraction, an infinity); or not-a-number.
\<close>

datatype number = IntLit int | Whole int | NonIntegral | NotANumber

text \<open>
  What the source leaves to the libraries is a parameter of the model, so that every
  theorem holds whatever they do there: the literal grammar of the numeric parser behind
  \<^verbatim>\<open>pd.to_numeric\<close> on a string (\<open>None\<close>: the string does not parse), the format-free
  date inference of \<^verbatim>\<open>pd.to_datetime\<close> on a cell (\<open>None\<close>: no date is recognised),
  \<^verbatim>\<open>json.dumps\<close> (\<open>None\<close>: the value is not serialisable and the call raises),
  whether an in-place method called on \<^verbatim>\<open>df[column]\<close> writes through to the frame (it
  does in pandas without copy-on-write, it does not in pandas 3), and the datetime column
  that \<^verbatim>\<open>errors='coerce'\<close> makes of values that mix timezone-aware and naive times.
\<close>

record library =
  parse_numeric :: "string \<Rightarrow> number option"
  infer_datetime :: "cell \<Rightarrow> (int \<times> tz) option"
  json_dumps :: "cell \<Rightarrow> string option"
  write_through :: bool
  mixed_timezones :: "(int \<times> tz) option list \<Rightarrow> int option list \<times> tz"

text \<open>The number in one cell; what does not parse is NaN (\<^verbatim>\<open>errors='coerce'\<close>). A float
  cell is a floating-point number whatever its value.\<close>

fun to_numeric_cell :: "library \<Rightarrow> cell \<Rightarrow> number" where
  "to_numeric_cell lib (StrV s) = (case parse_numeric lib s of Some n \<Rightarrow> n | None \<Rightarrow> NotANumber)"
| "to_numeric_cell lib (IntV i) = IntLit i"
| "to_numeric_cell lib (BoolV b) = IntLit (if b then 1 else 0)"
| "to_numeric_cell lib (FloatV r) =
     (case parse_numeric lib r of
        Some (IntLit i) \<Rightarrow> Whole i
      | Some n \<Rightarrow> n
      | None \<Rightarrow> NotANumber)"
| "to_numeric_cell lib (TsV t z) = NotANumber"
| "to_numeric_cell lib NaT = NotANumber"
| "to_numeric_cell lib NoneV = NotANumber"

text \<open>
  The integer nearest to \<open>i\<close> that a 64-bit float holds (53 bits of mantissa, ties to the
  even mantissa): integers below \<open>2^53\<close> in magnitude are held exactly.
\<close>

function bit_length :: "int \<Rightarrow> nat" where
  "bit_length i = (if i \<le> 0 then 0 else Suc (bit_length (i div 2)))"
  by pat_completeness auto
termination
  by (relation "measure nat") auto

declare bit_length.simps [simp del]

definition float64_of_int :: "int \<Rightarrow> int" where
  "float64_of_int i =
     (let a = \<bar>i\<bar> in
      if a < 2 ^ 53 then i
      else (let e = bit_length a - 53;
                q = a div 2 ^ e;
                r = a mod 2 ^ e;
                h = 2 ^ (e - 1);
                q' = (if h < r \<or> (r = h \<and> odd q) then q + 1 else q)
            in sgn i * (q' * 2 ^ e)))"

text \<open>
  \<^verbatim>\<open>pd.to_numeric(column, errors='coerce')\<close> works on the whole column. The result is an
  integer column only when every cell is an integer literal of the 64-bit range (all signed
  or all unsigned); a NaN, a floating-point number or an integer out of range makes it a
  column of 64-bit floats, and every integer of the column is then rounded to the float
  nearest to it.
\<close>

definition float_mode :: "number list \<Rightarrow> bool" where
  "float_mode ns =
     ((\<exists>n \<in> set ns. case n of IntLit i \<Rightarrow> i < - (2 ^ 63) \<or> 2 ^ 64 \<le> i | _ \<Rightarrow> True) \<or>
      ((\<exists>n \<in> set ns. case n of IntLit i \<Rightarrow> 2 ^ 63 \<le> i | _ \<Rightarrow> False) \<and>
       (\<exists>n \<in> set ns. case n of IntLit i \<Rightarrow> i < 0 | _ \<Rightarrow> False)))"

definition as_float :: "number \<Rightarrow> number" where
  "as_float n =
     (case n of
        IntLit i \<Rightarrow> Whole (float64_of_int i)
      | Whole i \<Rightarrow> Whole (float64_of_int i)
      | _ \<Rightarrow> n)"

definition to_numeric :: "library \<Rightarrow> series \<Rightarrow> number list" where
  "to_numeric lib xs =
     (let ns = map (to_numeric_cell lib) xs in
      if float_mode ns then map as_float ns else ns)"

text \<open>
  \<^verbatim>\<open>.astype('Int64')\<close>: the nullable integer array. NaN becomes the missing marker; the
  cast raises on a number that is not whole and on a number outside the signed 64-bit
  range, which cannot be cast safely.
\<close>

definition int64_value :: "number \<Rightarrow> int option" where
  "int64_value n = (case n of IntLit i \<Rightarrow> Some i | Whole i \<Rightarrow> Some i | _ \<Rightarrow> None)"

definition in_int64 :: "int \<Rightarrow> bool" where
  "in_int64 i = (- (2 ^ 63) \<le> i \<and> i < 2 ^ 63)"

definition astype_Int64 :: "number list \<Rightarrow> cause + int option list" where
  "astype_Int64 ns =
     (if NonIntegral \<in> set ns \<or>
         (\<exists>n \<in> set ns. case int64_value n of Some i \<Rightarrow> \<not> in_int64 i | None \<Rightarrow> False)
      then Inl UnsafeCast
      else Inr (map int64_value ns))"

text \<open>\<^verbatim>\<open>.replace({np.nan: None})\<close> on the nullable integer array.\<close>

definition replace_nan_none :: "int option list \<Rightarrow> series" where
  "replace_nan_none xs = map (\<lambda>x. case x of Some i \<Rightarrow> IntV i | None \<Rightarrow> NoneV) xs"


section \<open>The type coercer: \<^verbatim>\<open>convert_dataframe_dtypes\<close>\<close>

text \<open>The first loop: every float of every column is rendered and every \<^verbatim>\<open>.0\<close> in the
  rendering is deleted.\<close>

definition strip_cell :: "cell \<Rightarrow> cell" where
  "strip_cell x = (case x of FloatV r \<Rightarrow> StrV (py_replace ''.0'' [] r) | _ \<Rightarrow> x)"

definition prepass :: "dataframe \<Rightarrow> dataframe" where
  "prepass df = map (\<lambda>(column, xs). (column, map strip_cell xs)) df"

text \<open>The chain of substring tests on \<^verbatim>\<open>str(dtype)\<close>, in the order of the source.\<close>

datatype family = IntegerFamily | TextFamily | BooleanFamily | DateFamily | JsonFamily | Other

definition family_of :: "string \<Rightarrow> family" where
  "family_of dtype =
     (if str_contains ''INTEGER'' dtype \<or> str_contains ''BIGINT'' dtype then IntegerFamily
      else if str_contains ''VARCHAR'' dtype \<or> str_contains ''TEXT'' dtype then TextFamily
      else if str_contains ''BOOLEAN'' dtype then BooleanFamily
      else if str_contains ''DATE'' dtype \<or> str_contains ''TIMESTAMP'' dtype then DateFamily
      else if str_contains ''JSON'' dtype then JsonFamily
      else Other)"

definition convert_integer :: "library \<Rightarrow> series \<Rightarrow> cause + series" where
  "convert_integer lib xs =
     (case astype_Int64 (to_numeric lib xs) of
        Inl e \<Rightarrow> Inl e
      | Inr ys \<Rightarrow> Inr (replace_nan_none ys))"

text \<open>\<^verbatim>\<open>df[column] = df[column].astype(str)\<close>, then
  \<^verbatim>\<open>df[column].replace({'nan': ' '}, inplace=True)\<close>: the cells that read \<^verbatim>\<open>nan\<close> become
  one blank in the frame when the in-place replacement writes through to it.\<close>

definition text_cell :: "library \<Rightarrow> cell \<Rightarrow> cell" where
  "text_cell lib x =
     (let s = py_str x in StrV (if write_through lib \<and> s = ''nan'' then '' '' else s))"

definition convert_text :: "library \<Rightarrow> series \<Rightarrow> cause + series" where
  "convert_text lib xs = Inr (map (text_cell lib) xs)"

definition convert_boolean :: "series \<Rightarrow> cause + series" where
  "convert_boolean xs = Inr (map (\<lambda>x. BoolV (py_bool x)) xs)"

text \<open>Format-free parsing, then \<^verbatim>\<open>tz_localize('UTC')\<close>, which raises on a column that is
  already timezone-aware.\<close>

definition convert_date :: "library \<Rightarrow> series \<Rightarrow> cause + series" where
  "convert_date lib xs =
     (let ps = map (infer_datetime lib) xs in
      if \<exists>p \<in> set ps. case p of Some (t, z) \<Rightarrow> z = UTC | None \<Rightarrow> False then Inl AlreadyTzAware
      else Inr (map (\<lambda>p. case p of Some (t, z) \<Rightarrow> TsV t UTC | None \<Rightarrow> NaT) ps))"

fun json_cells :: "library \<Rightarrow> series \<Rightarrow> cause + series" where
  "json_cells lib [] = Inr []"
| "json_cells lib (x # xs) =
     (if isna x then map_sum id (\<lambda>ys. NoneV # ys) (json_cells lib xs)
      else case json_dumps lib x of
             None \<Rightarrow> Inl NotSerializable
           | Some s \<Rightarrow> map_sum id (\<lambda>ys. StrV s # ys) (json_cells lib xs))"

definition convert_series :: "library \<Rightarrow> string \<Rightarrow> series \<Rightarrow> cause + series" where
  "convert_series lib dtype xs =
     (case family_of dtype of
        IntegerFamily \<Rightarrow> convert_integer lib xs
      | TextFamily \<Rightarrow> convert_text lib xs
      | BooleanFamily \<Rightarrow> convert_boolean xs
      | DateFamily \<Rightarrow> convert_date lib xs
      | JsonFamily \<Rightarrow> json_cells lib xs
      | Other \<Rightarrow> Inr xs)"

text \<open>
  The second loop, over the items of \<^verbatim>\<open>schema_info\<close>. The frame is mutated in place, so
  the function yields the frame as it stands when the loop ends or raises.
\<close>

fun convert_columns ::
  "library \<Rightarrow> (string \<times> string) list \<Rightarrow> dataframe \<Rightarrow> (error + pyval) \<times> dataframe" where
  "convert_columns lib [] df = (Inr PyNone, df)"
| "convert_columns lib ((column, dtype) # rest) df =
     (case map_of df column of
        None \<Rightarrow> convert_columns lib rest df
      | Some xs \<Rightarrow>
          (case convert_series lib dtype xs of
             Inl e \<Rightarrow> (Inl (ConvertFailed column dtype e), df)
           | Inr ys \<Rightarrow> convert_columns lib rest (set_column column ys df)))"

definition convert_dataframe_dtypes ::
  "library \<Rightarrow> dataframe \<Rightarrow> (string \<times> string) list \<Rightarrow> (error + pyval) \<times> dataframe" where
  "convert_dataframe_dtypes lib df schema_info = convert_columns lib schema_info (prepass df)"


section \<open>The datetime normaliser: \<^verbatim>\<open>parse_datetime_columns\<close>\<close>

subsection \<open>Matching the format \<^verbatim>\<open>%m-%d-%Y %H:%M:%S\<close>\<close>

text \<open>
  The format is compiled to a regular expression, one alternation per directive, and the
  whole string has to match. A matcher yields every way of matching a prefix, as the value
  read and the rest of the string, in the order in which the backtracking engine tries the
  alternatives. A character of a string is a code point below 256.
\<close>

definition digit_value :: "char \<Rightarrow> int" where
  "digit_value c = int (of_char c) - 48"

definition two_of :: "string \<Rightarrow> string \<Rightarrow> string \<Rightarrow> (int \<times> string) list" where
  "two_of first second s =
     (case s of
        a # b # r \<Rightarrow>
          if a \<in> set first \<and> b \<in> set second then [(10 * digit_value a + digit_value b, r)] else []
      | _ \<Rightarrow> [])"

definition one_of :: "string \<Rightarrow> string \<Rightarrow> (int \<times> string) list" where
  "one_of first s =
     (case s of a # r \<Rightarrow> if a \<in> set first then [(digit_value a, r)] else [] | _ \<Rightarrow> [])"

definition literal :: "char \<Rightarrow> string \<Rightarrow> string list" where
  "literal c s = (case s of a # r \<Rightarrow> if a = c then [r] else [] | _ \<Rightarrow> [])"

text \<open>\<^verbatim>\<open>1[0-2]|0[1-9]|[1-9]\<close>\<close>

definition match_month :: "string \<Rightarrow> (int \<times> string) list" where
  "match_month s = two_of ''1'' ''012'' s @ two_of ''0'' ''123456789'' s @ one_of ''123456789'' s"

text \<open>\<^verbatim>\<open>3[0-1]|[1-2]\d|0[1-9]|[1-9]| [1-9]\<close>\<close>

definition match_day :: "string \<Rightarrow> (int \<times> string) list" where
  "match_day s =
     two_of ''3'' ''01'' s @ two_of ''12'' ''0123456789'' s @ two_of ''0'' ''123456789'' s @
     one_of ''123456789'' s @
     (case s of a # r \<Rightarrow> if a = CHR '' '' then one_of ''123456789'' r else [] | _ \<Rightarrow> [])"

text \<open>\<^verbatim>\<open>\d\d\d\d\<close>\<close>

definition match_year :: "string \<Rightarrow> (int \<times> string) list" where
  "match_year s =
     (case s of
        a # b # c # d # r \<Rightarrow>
          if set [a, b, c, d] \<subseteq> set ''0123456789''
          then [(1000 * digit_value a + 100 * digit_value b + 10 * digit_value c + digit_value d, r)]
          else []
      | _ \<Rightarrow> [])"

text \<open>\<^verbatim>\<open>2[0-3]|[0-1]\d|\d\<close>\<close>

definition match_hour :: "string \<Rightarrow> (int \<times> string) list" where
  "match_hour s = two_of ''2'' ''0123'' s @ two_of ''01'' ''0123456789'' s @ one_of ''0123456789'' s"

text \<open>\<^verbatim>\<open>[0-5]\d|\d\<close>\<close>

definition match_minute :: "string \<Rightarrow> (int \<times> string) list" where
  "match_minute s = two_of ''012345'' ''0123456789'' s @ one_of ''0123456789'' s"

text \<open>\<^verbatim>\<open>6[0-1]|[0-5]\d|\d\<close>\<close>

definition match_second :: "string \<Rightarrow> (int \<times> string) list" where
  "match_second s =
     two_of ''6'' ''01'' s @ two_of ''012345'' ''0123456789'' s @ one_of ''0123456789'' s"

text \<open>\<^verbatim>\<open>\s+\<close>, the blank of the format: one or more whitespace characters, longest
  first. The whitespace of a Python string pattern is, below 256, the characters 0x09 to
  0x0D, 0x1C to 0x1F, the blank, 0x85 and 0xA0.\<close>

definition is_space :: "char \<Rightarrow> bool" where
  "is_space c =
     (c \<in> set [CHR 0x09, CHR 0x0A, CHR 0x0B, CHR 0x0C, CHR 0x0D,
                CHR 0x1C, CHR 0x1D, CHR 0x1E, CHR 0x1F, CHR 0x20, CHR 0x85, CHR 0xA0])"

fun match_spaces :: "string \<Rightarrow> string list" where
  "match_spaces [] = []"
| "match_spaces (a # r) = (if is_space a then match_spaces r @ [r] else [])"

text \<open>One piece of the expression followed by the next, in backtracking order.\<close>

definition followed_by ::
  "(string \<Rightarrow> ('a \<times> string) list) \<Rightarrow> (string \<Rightarrow> string list) \<Rightarrow> string \<Rightarrow> ('a \<times> string) list" where
  "followed_by p q s = [(v, r'). (v, r) \<leftarrow> p s, r' \<leftarrow> q r]"

definition match_format :: "string \<Rightarrow> ((int \<times> int \<times> int \<times> int \<times> int \<times> int) \<times> string) list" where
  "match_format s =
     [((y, m, d, h, mi, se), r6).
        (m, r1) \<leftarrow> followed_by match_month (literal CHR ''-'') s,
        (d, r2) \<leftarrow> followed_by match_day (literal CHR ''-'') r1,
        (y, r3) \<leftarrow> followed_by match_year match_spaces r2,
        (h, r4) \<leftarrow> followed_by match_hour (literal CHR '':'') r3,
        (mi, r5) \<leftarrow> followed_by match_minute (literal CHR '':'') r4,
        (se, r6) \<leftarrow> match_second r5]"

text \<open>
  The first match counts, and it has to reach the end of the string (no unconverted data
  remains). Its fields have to name a date of the calendar (years 1 to 9999), and the
  instant has to lie within the range of a nanosecond timestamp; the time of day is added
  up as it was read.
\<close>

definition strptime :: "string \<Rightarrow> int option" where
  "strptime s =
     (case match_format s of
        [] \<Rightarrow> None
      | ((y, m, d, h, mi, se), rest) # _ \<Rightarrow>
          if rest = [] \<and> 1 \<le> y \<and> d \<le> days_in_month y m
          then (let t = epoch_seconds y m d h mi se in
                if - 9223372036 \<le> t \<and> t \<le> 9223372036 then Some t else None)
          else None)"

subsection \<open>The normaliser\<close>

text \<open>
  \<^verbatim>\<open>pd.to_datetime(x, format=..., errors='coerce')\<close> on one cell: a string is matched
  against the format, a timestamp stays as it is, anything else is not a time.
\<close>

fun to_datetime_cell :: "cell \<Rightarrow> (int \<times> tz) option" where
  "to_datetime_cell (StrV s) = map_option (\<lambda>t. (t, Naive)) (strptime s)"
| "to_datetime_cell (TsV t z) = Some (t, z)"
| "to_datetime_cell _ = None"

text \<open>
  A datetime column: its instants (\<open>None\<close> is NaT) and the timezone of the column, naive
  when no value is aware. Where aware and naive values meet, \<^verbatim>\<open>errors='coerce'\<close> still
  returns a datetime column, with NaT in the place of some of the values; which column is
  left to the library.
\<close>

definition to_datetime_format :: "library \<Rightarrow> series \<Rightarrow> int option list \<times> tz" where
  "to_datetime_format lib xs =
     (let ps = map to_datetime_cell xs;
          zs = map snd (List.map_filter id ps) in
      if Naive \<in> set zs \<and> UTC \<in> set zs then mixed_timezones lib ps
      else (map (map_option fst) ps, if UTC \<in> set zs then UTC else Naive))"

definition tz_localize_utc :: "int option list \<times> tz \<Rightarrow> int option list \<times> tz" where
  "tz_localize_utc col = (fst col, UTC)"

definition tz_convert_utc :: "int option list \<times> tz \<Rightarrow> int option list \<times> tz" where
  "tz_convert_utc col = (fst col, UTC)"

text \<open>\<^verbatim>\<open>.replace({pd.NaT: None})\<close>, read back as cells.\<close>

definition replace_nat_none :: "int option list \<times> tz \<Rightarrow> series" where
  "replace_nat_none col = map (\<lambda>x. case x of Some t \<Rightarrow> TsV t (snd col) | None \<Rightarrow> NoneV) (fst col)"

text \<open>The body of the loop on one column, once the column is found: parse against the
  format, localise a naive column to UTC or convert an aware one, and replace NaT by
  \<^verbatim>\<open>None\<close>. None of the three steps raises.\<close>

definition normalize_series :: "library \<Rightarrow> series \<Rightarrow> series" where
  "normalize_series lib xs =
     (let col = to_datetime_format lib xs in
      replace_nat_none (if snd col = Naive then tz_localize_utc col else tz_convert_utc col))"

text \<open>The loop over the listed columns; a column that the frame does not have raises
  \<^verbatim>\<open>KeyError\<close>, which the loop wraps.\<close>

fun parse_datetime_columns ::
  "library \<Rightarrow> dataframe \<Rightarrow> string list \<Rightarrow> (error + pyval) \<times> dataframe" where
  "parse_datetime_columns lib df [] = (Inr PyNone, df)"
| "parse_datetime_columns lib df (column_name # rest) =
     (case map_of df column_name of
        None \<Rightarrow> (Inl (DatetimeFailed column_name KeyError), df)
      | Some xs \<Rightarrow>
          parse_datetime_columns lib (set_column column_name (normalize_series lib xs) df) rest)"


section \<open>The upsert engine: \<^verbatim>\<open>upsert_dataframe_to_postgres\<close>\<close>

text \<open>
  \<^verbatim>\<open>df.to_dict(orient='records')\<close>: one dictionary per row of the frame, from column
  name to the cell of that row. These are the parameter sets of the statement. All columns
  of a frame have the same length, the number of its rows.
\<close>

type_synonym params = "(string \<times> cell) list"

definition nrows :: "dataframe \<Rightarrow> nat" where
  "nrows df = (case df of [] \<Rightarrow> 0 | (c, xs) # _ \<Rightarrow> length xs)"

definition to_records :: "dataframe \<Rightarrow> params list" where
  "to_records df = map (\<lambda>i. map (\<lambda>(c, xs). (c, xs ! i)) df) [0 ..< nrows df]"

text \<open>
  A row of a database table gives every column its value, \<open>NoneV\<close> standing for NULL; a
  table is its rows in storage order; a database maps a schema and a table name to a table.
\<close>

type_synonym row = "string \<Rightarrow> cell"
type_synonym table = "row list"
type_synonym database = "string \<times> string \<Rightarrow> table option"

text \<open>
  What the source leaves to the database server: which rows it refuses in which state of
  the table (a type mismatch, a violated constraint), and the default of a column that a
  statement does not name.
\<close>

record server =
  rejects :: "table \<Rightarrow> row \<Rightarrow> bool"
  column_default :: "string \<Rightarrow> cell"

text \<open>
  The statement text of the source:
  \<^verbatim>\<open>INSERT INTO "schema"."table" (columns) VALUES (:columns)
  ON CONFLICT ("unique_key") DO UPDATE SET "col" = EXCLUDED."col"\<close>
  for every column of the frame but the unique key.
\<close>

record statement =
  target :: "string \<times> string"
  insert_columns :: "string list"
  conflict_column :: string
  update_columns :: "string list"

definition upsert_stmt :: "dataframe \<Rightarrow> string \<Rightarrow> string \<Rightarrow> string \<Rightarrow> statement" where
  "upsert_stmt df table_name unique_key schema =
     \<lparr> target = (schema, table_name),
       insert_columns = [col. col \<leftarrow> columns df],
       conflict_column = unique_key,
       update_columns = [col. col \<leftarrow> columns df, col \<noteq> unique_key] \<rparr>"

text \<open>The row proposed for insertion (\<^verbatim>\<open>EXCLUDED\<close>) by one parameter set.\<close>

definition proposed :: "server \<Rightarrow> params \<Rightarrow> row" where
  "proposed srv ps = (\<lambda>c. case map_of ps c of Some v \<Rightarrow> v | None \<Rightarrow> column_default srv c)"

text \<open>The conflict test of the unique index: NULL conflicts with nothing.\<close>

definition conflicts :: "string \<Rightarrow> row \<Rightarrow> row \<Rightarrow> bool" where
  "conflicts key new old = (new key \<noteq> NoneV \<and> old key = new key)"

text \<open>\<^verbatim>\<open>DO UPDATE SET "col" = EXCLUDED."col"\<close> on the existing row.\<close>

definition do_update :: "string list \<Rightarrow> row \<Rightarrow> row \<Rightarrow> row" where
  "do_update cols new old = (\<lambda>c. if c \<in> set cols then new c else old c)"

fun upsert_row :: "string \<Rightarrow> string list \<Rightarrow> row \<Rightarrow> table \<Rightarrow> table" where
  "upsert_row key cols new [] = [new]"
| "upsert_row key cols new (old # t) =
     (if conflicts key new old then do_update cols new old # t
      else old # upsert_row key cols new t)"

text \<open>One execution of the statement. With no column to update the text ends in
  \<^verbatim>\<open>DO UPDATE SET\<close> and does not parse.\<close>

definition execute_one :: "server \<Rightarrow> statement \<Rightarrow> params \<Rightarrow> table \<Rightarrow> cause + table" where
  "execute_one srv stmt ps t =
     (if update_columns stmt = [] then Inl SyntaxError
      else if rejects srv t (proposed srv ps) then Inl Rejected
      else Inr (upsert_row (conflict_column stmt) (update_columns stmt) (proposed srv ps) t))"

text \<open>The statement once for each parameter set of a list, in order, stopping at the
  first failure.\<close>

fun executemany :: "server \<Rightarrow> statement \<Rightarrow> params list \<Rightarrow> table \<Rightarrow> cause + table" where
  "executemany srv stmt [] t = Inr t"
| "executemany srv stmt (ps # rest) t =
     (case execute_one srv stmt ps t of
        Inl e \<Rightarrow> Inl e
      | Inr t' \<Rightarrow> executemany srv stmt rest t')"

text \<open>\<^verbatim>\<open>connection.execute(stmt, records)\<close> on the named table: the statement for every
  record. With no record at all the statement is run once without parameters, and fails on
  its unbound parameters.\<close>

definition execute :: "server \<Rightarrow> statement \<Rightarrow> params list \<Rightarrow> database \<Rightarrow> cause + database" where
  "execute srv stmt records db =
     (if records = [] then Inl MissingParameter
      else case db (target stmt) of
        None \<Rightarrow> Inl UndefinedTable
      | Some t \<Rightarrow>
          (case executemany srv stmt records t of
             Inl e \<Rightarrow> Inl e
           | Inr t' \<Rightarrow> Inr (db(target stmt \<mapsto> t'))))"

text \<open>\<^verbatim>\<open>with connection.begin()\<close>: the body works on the state of the transaction, which
  is committed when the body ends and rolled back when it raises.\<close>

definition transaction :: "(database \<Rightarrow> cause + database) \<Rightarrow> database \<Rightarrow> cause option \<times> database" where
  "transaction body db =
     (case body db of
        Inl e \<Rightarrow> (Some e, db)
      | Inr db' \<Rightarrow> (None, db'))"

definition upsert_dataframe_to_postgres ::
  "server \<Rightarrow> dataframe \<Rightarrow> string \<Rightarrow> database \<Rightarrow> string \<Rightarrow> string \<Rightarrow> (error + pyval) \<times> database" where
  "upsert_dataframe_to_postgres srv df table_name db unique_key schema =
     (let upsert_stmt = upsert_stmt df table_name unique_key schema in
      case transaction (execute srv upsert_stmt (to_records df)) db of
        (Some e, db') \<Rightarrow> (Inl (UpsertFailed e), db')
      | (None, db') \<Rightarrow> (Inr PyNone, db'))"


section \<open>A library and a server for the examples\<close>

text \<open>
  The examples run on an instance of the library that knows only the values they use. Its
  numeric parser reads plain decimal literals (an optional minus sign, digits, and
  optionally a point followed by digits) and the literal \<^verbatim>\<open>nan\<close>; its date inference
  recognises the texts of the fixed format of the normaliser; its \<^verbatim>\<open>json.dumps\<close> is
  given on integers and booleans only; in-place methods write through to the frame; a
  column that mixes aware and naive times is coerced to NaT throughout.
\<close>

definition is_digit :: "char \<Rightarrow> bool" where
  "is_digit c = (c \<in> set ''0123456789'')"

definition digits_value :: "string \<Rightarrow> int" where
  "digits_value s = foldl (\<lambda>n c. 10 * n + digit_value c) 0 s"

definition parse_decimal :: "string \<Rightarrow> number option" where
  "parse_decimal s =
     (let neg = (s \<noteq> [] \<and> hd s = CHR ''-'');
          body = (if neg then tl s else s);
          whole = takeWhile is_digit body;
          rest = dropWhile is_digit body;
          n = (if neg then - digits_value whole else digits_value whole)
      in if s = ''nan'' then Some NotANumber
         else if whole = [] then None
         else if rest = [] then Some (IntLit n)
         else if hd rest = CHR ''.'' \<and> tl rest \<noteq> [] \<and> (\<forall>c \<in> set (tl rest). is_digit c)
           then Some (if \<forall>c \<in> set (tl rest). c = CHR ''0'' then Whole n else NonIntegral)
         else None)"

definition example_library :: library where
  "example_library =
     \<lparr> parse_numeric = parse_decimal,
       infer_datetime = to_datetime_cell,
       json_dumps = (\<lambda>x. case x of
                            IntV i \<Rightarrow> Some (show_int i)
                          | BoolV b \<Rightarrow> Some (if b then ''true'' else ''false'')
                          | _ \<Rightarrow> None),
       write_through = True,
       mixed_timezones = (\<lambda>ps. (map (\<lambda>p. None) ps, Naive)) \<rparr>"

text \<open>A server that refuses a row with an empty name and has no column defaults, and one
  that refuses nothing.\<close>

definition example_server :: server where
  "example_server = \<lparr> rejects = (\<lambda>t r. r ''name'' = StrV []), column_default = (\<lambda>c. NoneV) \<rparr>"

definition lenient_server :: server where
  "lenient_server = \<lparr> rejects = (\<lambda>t r. False), column_default = (\<lambda>c. NoneV) \<rparr>"

definition example_row :: row where
  "example_row =
     (\<lambda>c. if c = ''lms_user_id'' then IntV 1 else if c = ''name'' then StrV ''Old''
          else if c = ''team'' then StrV ''Ops'' else NoneV)"

definition example_database :: "table \<Rightarrow> database" where
  "example_database t = (\<lambda>k. if k = (''tracking'', ''department_members'') then Some t else None)"


section \<open>Properties of the type coercer\<close>

subsection \<open>The frame, the loop over the schema and the integer conversion\<close>

lemma map_of_set_column:
  "map_of (set_column c xs df) k = (if k = c then Some xs else map_of df k)"
  by (induction df) auto

lemma map_of_prepass:
  "map_of (prepass df) c = map_option (map strip_cell) (map_of df c)"
  by (induction df) (auto simp: prepass_def)

lemma convert_columns_untouched:
  "c \<notin> fst ` set schema \<Longrightarrow> map_of (snd (convert_columns lib schema df)) c = map_of df c"
proof (induction schema arbitrary: df)
  case Nil
  then show ?case by simp
next
  case (Cons a schema)
  obtain k t where a: "a = (k, t)" by (cases a)
  from Cons.prems a have ne: "c \<noteq> k" and rest: "c \<notin> fst ` set schema" by auto
  show ?case
    using Cons.IH [OF rest] ne a
    by (auto simp: map_of_set_column split: option.splits sum.splits)
qed

lemma convert_columns_success_col:
  assumes "distinct (map fst schema)"
    and "convert_columns lib schema df = (Inr v, df')"
    and "(c, t) \<in> set schema"
    and "map_of df c = Some xs"
  shows "\<exists>ys. convert_series lib t xs = Inr ys \<and> map_of df' c = Some ys"
  using assms
proof (induction schema arbitrary: df)
  case Nil
  then show ?case by simp
next
  case (Cons a schema)
  obtain k u where a: "a = (k, u)" by (cases a)
  from Cons.prems(1) a have dist: "distinct (map fst schema)" and fresh: "k \<notin> fst ` set schema"
    by auto
  show ?case
  proof (cases "map_of df k")
    case None
    with Cons.prems(4) have "c \<noteq> k" by auto
    with Cons.prems(3) a have mem: "(c, t) \<in> set schema" by auto
    from Cons.prems(2) a None have "convert_columns lib schema df = (Inr v, df')" by simp
    from Cons.IH [OF dist this mem Cons.prems(4)] show ?thesis .
  next
    case (Some zs)
    with Cons.prems(2) a obtain ys where
      ys: "convert_series lib u zs = Inr ys"
      and run: "convert_columns lib schema (set_column k ys df) = (Inr v, df')"
      by (auto split: sum.splits)
    show ?thesis
    proof (cases "c = k")
      case True
      with Cons.prems(3) a fresh have "t = u" by (auto simp: image_iff)
      moreover from True Some Cons.prems(4) have "zs = xs" by simp
      moreover have "map_of df' c = Some ys"
        using convert_columns_untouched [OF fresh, of lib "set_column k ys df"] run True
        by (simp add: map_of_set_column)
      ultimately show ?thesis using ys by simp
    next
      case False
      with Cons.prems(3) a have mem: "(c, t) \<in> set schema" by auto
      from False Cons.prems(4) have "map_of (set_column k ys df) c = Some xs"
        by (simp add: map_of_set_column)
      from Cons.IH [OF dist run mem this] show ?thesis .
    qed
  qed
qed

lemma convert_columns_failure:
  assumes "distinct (map fst schema)"
    and "convert_columns lib schema df = (Inl e, df')"
  shows "\<exists>c t cs xs. e = ConvertFailed c t cs \<and> (c, t) \<in> set schema \<and>
           map_of df c = Some xs \<and> convert_series lib t xs = Inl cs \<and> map_of df' c = Some xs"
  using assms
proof (induction schema arbitrary: df)
  case Nil
  then show ?case by simp
next
  case (Cons a schema)
  obtain k u where a: "a = (k, u)" by (cases a)
  from Cons.prems(1) a have dist: "distinct (map fst schema)" and fresh: "k \<notin> fst ` set schema"
    by auto
  show ?case
  proof (cases "map_of df k")
    case None
    with Cons.prems(2) a have "convert_columns lib schema df = (Inl e, df')" by simp
    from Cons.IH [OF dist this] show ?thesis by auto
  next
    case (Some zs)
    show ?thesis
    proof (cases "convert_series lib u zs")
      case (Inl cs)
      with Cons.prems(2) a Some have "e = ConvertFailed k u cs" and "df' = df" by auto
      with Some Inl a show ?thesis by auto
    next
      case (Inr ys)
      with Cons.prems(2) a Some
      have run: "convert_columns lib schema (set_column k ys df) = (Inl e, df')" by simp
      from Cons.IH [OF dist run] obtain c t cs xs where
        r: "e = ConvertFailed c t cs" "(c, t) \<in> set schema"
           "map_of (set_column k ys df) c = Some xs" "convert_series lib t xs = Inl cs"
           "map_of df' c = Some xs"
        by blast
      from r(2) fresh have "c \<noteq> k" by (auto simp: image_iff)
      with r(3) have "map_of df c = Some xs" by (simp add: map_of_set_column)
      with r show ?thesis by auto
    qed
  qed
qed

lemma convert_columns_failure_split:
  assumes "convert_columns lib schema df = (Inl e, df')"
  shows "\<exists>pre c t post cs xs. schema = pre @ (c, t) # post \<and>
           convert_columns lib pre df = (Inr PyNone, df') \<and> map_of df' c = Some xs \<and>
           convert_series lib t xs = Inl cs \<and> e = ConvertFailed c t cs"
  using assms
proof (induction schema arbitrary: df)
  case Nil
  then show ?case by simp
next
  case (Cons a schema)
  obtain k u where a: "a = (k, u)" by (cases a)
  show ?case
  proof (cases "map_of df k")
    case None
    with Cons.prems a have "convert_columns lib schema df = (Inl e, df')" by simp
    from Cons.IH [OF this] obtain pre c t post cs xs where
      r: "schema = pre @ (c, t) # post" "convert_columns lib pre df = (Inr PyNone, df')"
         "map_of df' c = Some xs" "convert_series lib t xs = Inl cs" "e = ConvertFailed c t cs"
      by blast
    have "a # schema = (a # pre) @ (c, t) # post" using r(1) by simp
    moreover have "convert_columns lib (a # pre) df = (Inr PyNone, df')"
      using r(2) None a by simp
    ultimately show ?thesis using r(3,4,5) by blast
  next
    case (Some zs)
    show ?thesis
    proof (cases "convert_series lib u zs")
      case (Inl cs)
      with Cons.prems a Some have "e = ConvertFailed k u cs" and "df' = df" by auto
      moreover have "a # schema = [] @ (k, u) # schema" using a by simp
      moreover have "convert_columns lib [] df = (Inr PyNone, df)" by simp
      ultimately show ?thesis using Some Inl by blast
    next
      case (Inr ys)
      with Cons.prems a Some
      have run: "convert_columns lib schema (set_column k ys df) = (Inl e, df')" by simp
      from Cons.IH [OF run] obtain pre c t post cs xs where
        r: "schema = pre @ (c, t) # post"
           "convert_columns lib pre (set_column k ys df) = (Inr PyNone, df')"
           "map_of df' c = Some xs" "convert_series lib t xs = Inl cs" "e = ConvertFailed c t cs"
        by blast
      have "a # schema = (a # pre) @ (c, t) # post" using r(1) by simp
      moreover have "convert_columns lib (a # pre) df = (Inr PyNone, df')"
        using r(2) Some Inr a by simp
      ultimately show ?thesis using r(3,4,5) by blast
    qed
  qed
qed

lemma convert_columns_append:
  "convert_columns lib (pre @ rest) df =
     (case convert_columns lib pre df of
        (Inl e, df') \<Rightarrow> (Inl e, df')
      | (Inr v, df') \<Rightarrow> convert_columns lib rest df')"
proof (induction pre arbitrary: df)
  case Nil
  then show ?case by simp
next
  case (Cons a pre)
  obtain k u where a: "a = (k, u)" by (cases a)
  show ?case using Cons.IH a by (auto split: option.splits sum.splits)
qed

lemma float64_of_int_small: "\<bar>n\<bar> < 2 ^ 53 \<Longrightarrow> float64_of_int n = n"
  by (simp add: float64_of_int_def)

lemma in_int64_small: "\<bar>n\<bar> < 2 ^ 53 \<Longrightarrow> in_int64 n"
  by (simp add: in_int64_def abs_less_iff)

lemma to_numeric_length: "length (to_numeric lib xs) = length xs"
  by (simp add: to_numeric_def Let_def)

lemma to_numeric_nth:
  assumes "i < length xs"
  shows "to_numeric lib xs ! i =
           (if float_mode (map (to_numeric_cell lib) xs) then as_float (to_numeric_cell lib (xs ! i))
            else to_numeric_cell lib (xs ! i))"
  using assms by (simp add: to_numeric_def Let_def)

lemma float_mode_Whole:
  "Whole n \<in> set ns \<Longrightarrow> float_mode ns"
  by (force simp: float_mode_def)

lemma convert_integer_length:
  "convert_integer lib xs = Inr ys \<Longrightarrow> length ys = length xs"
  by (auto simp: convert_integer_def astype_Int64_def replace_nan_none_def to_numeric_length
      split: if_splits)

lemma convert_integer_cell:
  assumes ok: "convert_integer lib xs = Inr ys" and i: "i < length xs"
  shows "length ys = length xs"
    and "case to_numeric_cell lib (xs ! i) of
           IntLit n \<Rightarrow> ys ! i = IntV (if float_mode (map (to_numeric_cell lib) xs)
                                         then float64_of_int n else n)
         | Whole n \<Rightarrow> ys ! i = IntV (float64_of_int n)
         | NotANumber \<Rightarrow> ys ! i = NoneV
         | NonIntegral \<Rightarrow> False"
    and "ys ! i = NoneV \<or> (\<exists>n. ys ! i = IntV n \<and> in_int64 n)"
proof -
  let ?ns = "to_numeric lib xs"
  from ok have clean: "NonIntegral \<notin> set ?ns"
    and range: "\<forall>n \<in> set ?ns. case int64_value n of Some k \<Rightarrow> in_int64 k | None \<Rightarrow> True"
    and ys: "ys = replace_nan_none (map int64_value ?ns)"
    by (auto simp: convert_integer_def astype_Int64_def split: if_splits option.splits)
  show len: "length ys = length xs" using ys by (simp add: replace_nan_none_def to_numeric_length)
  from i have mem: "?ns ! i \<in> set ?ns" by (simp add: to_numeric_length)
  have cell: "ys ! i = (case int64_value (?ns ! i) of Some k \<Rightarrow> IntV k | None \<Rightarrow> NoneV)"
    using ys i by (simp add: replace_nan_none_def to_numeric_length)
  have ne: "?ns ! i \<noteq> NonIntegral" using clean mem by metis
  show "case to_numeric_cell lib (xs ! i) of
           IntLit n \<Rightarrow> ys ! i = IntV (if float_mode (map (to_numeric_cell lib) xs)
                                         then float64_of_int n else n)
         | Whole n \<Rightarrow> ys ! i = IntV (float64_of_int n)
         | NotANumber \<Rightarrow> ys ! i = NoneV
         | NonIntegral \<Rightarrow> False"
  proof (cases "to_numeric_cell lib (xs ! i)")
    case (IntLit n)
    then show ?thesis using cell to_numeric_nth [OF i, of lib]
      by (simp add: as_float_def int64_value_def)
  next
    case (Whole n)
    with i have "Whole n \<in> set (map (to_numeric_cell lib) xs)" by (metis length_map nth_map nth_mem)
    then have "float_mode (map (to_numeric_cell lib) xs)" by (rule float_mode_Whole)
    with Whole show ?thesis using cell to_numeric_nth [OF i, of lib]
      by (simp add: as_float_def int64_value_def)
  next
    case NonIntegral
    with ne to_numeric_nth [OF i, of lib] show ?thesis
      by (auto simp: as_float_def split: if_splits)
  next
    case NotANumber
    then show ?thesis using cell to_numeric_nth [OF i, of lib]
      by (simp add: as_float_def int64_value_def)
  qed
  show "ys ! i = NoneV \<or> (\<exists>n. ys ! i = IntV n \<and> in_int64 n)"
    using cell range mem by (cases "int64_value (?ns ! i)") auto
qed

lemma convert_integer_raises:
  assumes "convert_integer lib xs = Inl cs"
  shows "\<exists>x \<in> set xs. to_numeric_cell lib x = NonIntegral \<or>
           (\<exists>n. (to_numeric_cell lib x = IntLit n \<or> to_numeric_cell lib x = Whole n) \<and> 2 ^ 53 \<le> \<bar>n\<bar>)"
proof -
  let ?ns = "to_numeric lib xs"
  from assms have "NonIntegral \<in> set ?ns \<or>
      (\<exists>n \<in> set ?ns. case int64_value n of Some k \<Rightarrow> \<not> in_int64 k | None \<Rightarrow> False)"
    by (auto simp: convert_integer_def astype_Int64_def split: if_splits sum.splits)
  then obtain i where i: "i < length xs"
    and bad: "?ns ! i = NonIntegral \<or>
              (case int64_value (?ns ! i) of Some k \<Rightarrow> \<not> in_int64 k | None \<Rightarrow> False)"
    by (metis in_set_conv_nth to_numeric_length)
  have x: "xs ! i \<in> set xs" using i by simp
  show ?thesis
  proof (cases "to_numeric_cell lib (xs ! i)")
    case (IntLit n)
    have "2 ^ 53 \<le> \<bar>n\<bar>"
    proof (rule ccontr)
      assume "\<not> 2 ^ 53 \<le> \<bar>n\<bar>"
      then have small: "\<bar>n\<bar> < 2 ^ 53" by simp
      with bad IntLit to_numeric_nth [OF i, of lib] in_int64_small [OF small]
      show False by (simp add: as_float_def int64_value_def float64_of_int_small split: if_splits)
    qed
    with IntLit x show ?thesis by blast
  next
    case (Whole n)
    have "2 ^ 53 \<le> \<bar>n\<bar>"
    proof (rule ccontr)
      assume "\<not> 2 ^ 53 \<le> \<bar>n\<bar>"
      then have small: "\<bar>n\<bar> < 2 ^ 53" by simp
      with bad Whole to_numeric_nth [OF i, of lib] in_int64_small [OF small]
      show False by (simp add: as_float_def int64_value_def float64_of_int_small split: if_splits)
    qed
    with Whole x show ?thesis by blast
  next
    case NonIntegral
    with x show ?thesis by blast
  next
    case NotANumber
    with bad to_numeric_nth [OF i, of lib] show ?thesis
      by (simp add: as_float_def int64_value_def split: if_splits)
  qed
qed

subsection \<open>The columns after the pass\<close>

text \<open>
  \<^bold>\<open>C5.\<close> A column whose declared type is of the integer family (its name contains
  \<^verbatim>\<open>INTEGER\<close> or \<^verbatim>\<open>BIGINT\<close>) holds, after a coercion pass that returns, only integers
  of the 64-bit range and NULLs. A value that does not parse is NULL; a value that parses
  to a whole number is that number, rounded to the nearest 64-bit float when the column
  has become a float column, and in any case unchanged below \<open>2^53\<close> in magnitude: it is
  not forced to zero. A value that does not parse never makes the pass raise: the
  conversion of such a column raises only on a number that is not whole or on one of
  magnitude \<open>2^53\<close> or more.
\<close>

theorem integer_column_integer_or_null:
  assumes "distinct (map fst schema_info)"
    and "(c, dtype) \<in> set schema_info"
    and "family_of dtype = IntegerFamily"
    and "map_of df c = Some xs"
  shows "(\<forall>v df'. convert_dataframe_dtypes lib df schema_info = (Inr v, df') \<longrightarrow>
            (\<exists>ys. map_of df' c = Some ys \<and> length ys = length xs \<and>
               (\<forall>i < length xs. ys ! i = NoneV \<or> (\<exists>n. ys ! i = IntV n \<and> in_int64 n)) \<and>
               (\<forall>i < length xs.
                  (case to_numeric_cell lib (strip_cell (xs ! i)) of
                     IntLit n \<Rightarrow>
                       ys ! i = IntV (if float_mode (map (to_numeric_cell lib) (map strip_cell xs))
                                      then float64_of_int n else n)
                   | Whole n \<Rightarrow> ys ! i = IntV (float64_of_int n)
                   | NotANumber \<Rightarrow> ys ! i = NoneV
                   | NonIntegral \<Rightarrow> False)) \<and>
               (\<forall>i < length xs. \<forall>n.
                  (to_numeric_cell lib (strip_cell (xs ! i)) = IntLit n \<or>
                   to_numeric_cell lib (strip_cell (xs ! i)) = Whole n) \<and> \<bar>n\<bar> < 2 ^ 53
                  \<longrightarrow> ys ! i = IntV n) \<and>
               (\<forall>i < length xs. \<forall>s. xs ! i = StrV s \<and> parse_numeric lib s = None \<longrightarrow> ys ! i = NoneV)))
       \<and> (\<forall>cs df'. convert_dataframe_dtypes lib df schema_info = (Inl (ConvertFailed c dtype cs), df') \<longrightarrow>
            (\<exists>x \<in> set xs. to_numeric_cell lib (strip_cell x) = NonIntegral \<or>
               (\<exists>n. (to_numeric_cell lib (strip_cell x) = IntLit n \<or>
                     to_numeric_cell lib (strip_cell x) = Whole n) \<and> 2 ^ 53 \<le> \<bar>n\<bar>)))"
proof (intro conjI allI impI)
  fix v df'
  assume run: "convert_dataframe_dtypes lib df schema_info = (Inr v, df')"
  let ?xs = "map strip_cell xs"
  have col: "map_of (prepass df) c = Some ?xs" using assms(4) by (simp add: map_of_prepass)
  from run have "convert_columns lib schema_info (prepass df) = (Inr v, df')"
    by (simp add: convert_dataframe_dtypes_def)
  from convert_columns_success_col [OF assms(1) this assms(2) col]
  obtain ys where ys: "convert_series lib dtype ?xs = Inr ys" "map_of df' c = Some ys" by blast
  from ys(1) assms(3) have ci: "convert_integer lib ?xs = Inr ys" by (simp add: convert_series_def)
  have len: "length ys = length xs"
    using convert_integer_length [OF ci] by simp
  have range: "\<forall>i < length xs. ys ! i = NoneV \<or> (\<exists>n. ys ! i = IntV n \<and> in_int64 n)"
    using convert_integer_cell(3) [OF ci] by simp
  have cells: "\<forall>i < length xs.
      (case to_numeric_cell lib (strip_cell (xs ! i)) of
         IntLit n \<Rightarrow> ys ! i = IntV (if float_mode (map (to_numeric_cell lib) ?xs)
                                      then float64_of_int n else n)
       | Whole n \<Rightarrow> ys ! i = IntV (float64_of_int n)
       | NotANumber \<Rightarrow> ys ! i = NoneV
       | NonIntegral \<Rightarrow> False)"
  proof (intro allI impI)
    fix i assume i: "i < length xs"
    then have i': "i < length ?xs" by simp
    from convert_integer_cell(2) [OF ci i'] i
    show "case to_numeric_cell lib (strip_cell (xs ! i)) of
         IntLit n \<Rightarrow> ys ! i = IntV (if float_mode (map (to_numeric_cell lib) ?xs)
                                      then float64_of_int n else n)
       | Whole n \<Rightarrow> ys ! i = IntV (float64_of_int n)
       | NotANumber \<Rightarrow> ys ! i = NoneV
       | NonIntegral \<Rightarrow> False"
      by simp
  qed
  have small: "\<forall>i < length xs. \<forall>n.
                  (to_numeric_cell lib (strip_cell (xs ! i)) = IntLit n \<or>
                   to_numeric_cell lib (strip_cell (xs ! i)) = Whole n) \<and> \<bar>n\<bar> < 2 ^ 53
                  \<longrightarrow> ys ! i = IntV n"
  proof (intro allI impI)
    fix i n
    assume i: "i < length xs"
      and n: "(to_numeric_cell lib (strip_cell (xs ! i)) = IntLit n \<or>
               to_numeric_cell lib (strip_cell (xs ! i)) = Whole n) \<and> \<bar>n\<bar> < 2 ^ 53"
    then have "float64_of_int n = n" by (simp add: float64_of_int_small)
    with cells [rule_format, OF i] n show "ys ! i = IntV n" by auto
  qed
  have unparsed: "\<forall>i < length xs. \<forall>s. xs ! i = StrV s \<and> parse_numeric lib s = None \<longrightarrow> ys ! i = NoneV"
  proof (intro allI impI)
    fix i s assume i: "i < length xs" and s: "xs ! i = StrV s \<and> parse_numeric lib s = None"
    then have "to_numeric_cell lib (strip_cell (xs ! i)) = NotANumber" by (simp add: strip_cell_def)
    with cells [rule_format, OF i] show "ys ! i = NoneV" by simp
  qed
  from ys(2) len range cells small unparsed
  show "\<exists>ys. map_of df' c = Some ys \<and> length ys = length xs \<and>
               (\<forall>i < length xs. ys ! i = NoneV \<or> (\<exists>n. ys ! i = IntV n \<and> in_int64 n)) \<and>
               (\<forall>i < length xs.
                  (case to_numeric_cell lib (strip_cell (xs ! i)) of
                     IntLit n \<Rightarrow>
                       ys ! i = IntV (if float_mode (map (to_numeric_cell lib) (map strip_cell xs))
                                      then float64_of_int n else n)
                   | Whole n \<Rightarrow> ys ! i = IntV (float64_of_int n)
                   | NotANumber \<Rightarrow> ys ! i = NoneV
                   | NonIntegral \<Rightarrow> False)) \<and>
               (\<forall>i < length xs. \<forall>n.
                  (to_numeric_cell lib (strip_cell (xs ! i)) = IntLit n \<or>
                   to_numeric_cell lib (strip_cell (xs ! i)) = Whole n) \<and> \<bar>n\<bar> < 2 ^ 53
                  \<longrightarrow> ys ! i = IntV n) \<and>
               (\<forall>i < length xs. \<forall>s. xs ! i = StrV s \<and> parse_numeric lib s = None \<longrightarrow> ys ! i = NoneV)"
    by blast
next
  fix cs df'
  assume run: "convert_dataframe_dtypes lib df schema_info = (Inl (ConvertFailed c dtype cs), df')"
  then have "convert_columns lib schema_info (prepass df) = (Inl (ConvertFailed c dtype cs), df')"
    by (simp add: convert_dataframe_dtypes_def)
  from convert_columns_failure [OF assms(1) this] obtain zs where
    "map_of (prepass df) c = Some zs" "convert_series lib dtype zs = Inl cs"
    by auto
  with assms(3,4) have "convert_integer lib (map strip_cell xs) = Inl cs"
    by (simp add: map_of_prepass convert_series_def)
  from convert_integer_raises [OF this]
  show "\<exists>x \<in> set xs. to_numeric_cell lib (strip_cell x) = NonIntegral \<or>
               (\<exists>n. (to_numeric_cell lib (strip_cell x) = IntLit n \<or>
                     to_numeric_cell lib (strip_cell x) = Whole n) \<and> 2 ^ 53 \<le> \<bar>n\<bar>)"
    by auto
qed

theorem integer_column_integer_or_null_witness:
  "\<exists>ys. map_of (snd (convert_dataframe_dtypes example_library
      [(''lms_user_id'', [FloatV ''42.0'', StrV ''abc'', NaN, StrV ''9007199254740993''])]
      [(''lms_user_id'', ''BIGINT'')])) ''lms_user_id'' = Some ys
     \<and> length ys = 4 \<and> ys ! 0 = IntV 42 \<and> ys ! 1 = NoneV \<and> ys ! 2 = NoneV
     \<and> ys ! 3 = IntV 9007199254740992"
proof -
  let ?xs = "[FloatV ''42.0'', StrV ''abc'', NaN, StrV ''9007199254740993'']"
  let ?df = "[(''lms_user_id'', ?xs)]"
  let ?schema = "[(''lms_user_id'', ''BIGINT'')]"
  have h1: "distinct (map fst ?schema)" by simp
  have h2: "(''lms_user_id'', ''BIGINT'') \<in> set ?schema" by simp
  have h3: "family_of ''BIGINT'' = IntegerFamily" by code_simp
  have h4: "map_of ?df ''lms_user_id'' = Some ?xs" by simp
  have run: "convert_dataframe_dtypes example_library ?df ?schema
      = (Inr PyNone, snd (convert_dataframe_dtypes example_library ?df ?schema))"
    by code_simp
  have fm: "float_mode (map (to_numeric_cell example_library) (map strip_cell ?xs))" by code_simp
  have n0: "to_numeric_cell example_library (strip_cell (?xs ! 0)) = IntLit 42" by code_simp
  have n1: "to_numeric_cell example_library (strip_cell (?xs ! 1)) = NotANumber" by code_simp
  have n2: "to_numeric_cell example_library (strip_cell (?xs ! 2)) = NotANumber" by code_simp
  have n3: "to_numeric_cell example_library (strip_cell (?xs ! 3)) = IntLit 9007199254740993"
    by code_simp
  have r0: "float64_of_int 42 = 42" by code_simp
  have r3: "float64_of_int 9007199254740993 = 9007199254740992" by code_simp
  from integer_column_integer_or_null [OF h1 h2 h3 h4, of example_library] run
  obtain ys where ys: "map_of (snd (convert_dataframe_dtypes example_library ?df ?schema))
        ''lms_user_id'' = Some ys" "length ys = length ?xs"
    and cells: "\<forall>i < length ?xs. (case to_numeric_cell example_library (strip_cell (?xs ! i)) of
                     IntLit n \<Rightarrow>
                       ys ! i = IntV (if float_mode (map (to_numeric_cell example_library)
                                            (map strip_cell ?xs))
                                      then float64_of_int n else n)
                   | Whole n \<Rightarrow> ys ! i = IntV (float64_of_int n)
                   | NotANumber \<Rightarrow> ys ! i = NoneV
                   | NonIntegral \<Rightarrow> False)"
    by blast
  have "ys ! 0 = IntV 42" using cells [rule_format, of 0] n0 fm r0 by simp
  moreover have "ys ! 1 = NoneV" using cells [rule_format, of 1] n1 by simp
  moreover have "ys ! 2 = NoneV" using cells [rule_format, of 2] n2 by simp
  moreover have "ys ! 3 = IntV 9007199254740992" using cells [rule_format, of 3] n3 fm r3 by simp
  ultimately show ?thesis using ys by simp
qed

text \<open>
  \<^bold>\<open>C7.\<close> Not every missing value of a text column becomes the placeholder: only a
  cell whose text is \<^verbatim>\<open>nan\<close> is replaced, and the text of \<^verbatim>\<open>None\<close> is \<^verbatim>\<open>None\<close>.
\<close>

theorem none_cell_not_placeholder:
  "convert_dataframe_dtypes example_library
      [(''first_name'', [StrV ''Ada'', NoneV])] [(''first_name'', ''VARCHAR(50)'')]
   = (Inr PyNone, [(''first_name'', [StrV ''Ada'', StrV ''None''])])
   \<and> isna NoneV \<and> StrV ''None'' \<noteq> StrV '' ''"
  by code_simp

text \<open>
  \<^bold>\<open>C7, as amended.\<close> The conversion of a column whose declared type is of the text
  family never raises. After a coercion pass that returns, every cell of the column is the
  text of its (pre-passed) value, except that, when the in-place replacement writes
  through to the frame (pandas without copy-on-write), a cell whose text is \<^verbatim>\<open>nan\<close> is
  one blank: so every NaN, the missing value of the CSV reader, becomes the one-blank
  string, not the empty string and not NULL. A \<^verbatim>\<open>None\<close> cell becomes the text \<^verbatim>\<open>None\<close>
  and a NaT cell the text \<^verbatim>\<open>NaT\<close>; no cell of the column is NULL.
\<close>

theorem text_column_placeholder:
  assumes "distinct (map fst schema_info)"
    and "(c, dtype) \<in> set schema_info"
    and "family_of dtype = TextFamily"
    and "map_of df c = Some xs"
  shows "(\<forall>v df'. convert_dataframe_dtypes lib df schema_info = (Inr v, df') \<longrightarrow>
            (\<exists>ys. map_of df' c = Some ys \<and> length ys = length xs \<and>
               (\<forall>i < length xs.
                  ys ! i = StrV (if write_through lib \<and> py_str (strip_cell (xs ! i)) = ''nan''
                                 then '' '' else py_str (strip_cell (xs ! i)))) \<and>
               (write_through lib \<longrightarrow>
                  (\<forall>i < length xs. xs ! i = NaN \<longrightarrow>
                     ys ! i = StrV '' '' \<and> ys ! i \<noteq> StrV [] \<and> ys ! i \<noteq> NoneV)) \<and>
               (\<forall>i < length xs. xs ! i = NoneV \<longrightarrow> ys ! i = StrV ''None'') \<and>
               (\<forall>i < length xs. xs ! i = NaT \<longrightarrow> ys ! i = StrV ''NaT'') \<and>
               NoneV \<notin> set ys))
       \<and> (\<forall>t cs df'. convert_dataframe_dtypes lib df schema_info \<noteq> (Inl (ConvertFailed c t cs), df'))"
proof (intro conjI allI impI)
  fix v df'
  assume run: "convert_dataframe_dtypes lib df schema_info = (Inr v, df')"
  let ?xs = "map strip_cell xs"
  have col: "map_of (prepass df) c = Some ?xs" using assms(4) by (simp add: map_of_prepass)
  from run have "convert_columns lib schema_info (prepass df) = (Inr v, df')"
    by (simp add: convert_dataframe_dtypes_def)
  from convert_columns_success_col [OF assms(1) this assms(2) col]
  obtain ys where ys: "convert_series lib dtype ?xs = Inr ys" "map_of df' c = Some ys" by blast
  from ys(1) assms(3) have eq: "ys = map (text_cell lib) ?xs"
    by (simp add: convert_series_def convert_text_def)
  have cells: "\<forall>i < length xs.
      ys ! i = StrV (if write_through lib \<and> py_str (strip_cell (xs ! i)) = ''nan''
                     then '' '' else py_str (strip_cell (xs ! i)))"
    using eq by (simp add: text_cell_def Let_def)
  have missing: "write_through lib \<longrightarrow>
      (\<forall>i < length xs. xs ! i = NaN \<longrightarrow>
         ys ! i = StrV '' '' \<and> ys ! i \<noteq> StrV [] \<and> ys ! i \<noteq> NoneV)"
    using eq by (simp add: text_cell_def strip_cell_def)
  have none: "\<forall>i < length xs. xs ! i = NoneV \<longrightarrow> ys ! i = StrV ''None''"
    using eq by (simp add: text_cell_def strip_cell_def)
  have nat: "\<forall>i < length xs. xs ! i = NaT \<longrightarrow> ys ! i = StrV ''NaT''"
    using eq by (simp add: text_cell_def strip_cell_def)
  have nonull: "NoneV \<notin> set ys"
    using eq by (auto simp: text_cell_def Let_def)
  from ys(2) eq cells missing none nat nonull
  show "\<exists>ys. map_of df' c = Some ys \<and> length ys = length xs \<and>
               (\<forall>i < length xs.
                  ys ! i = StrV (if write_through lib \<and> py_str (strip_cell (xs ! i)) = ''nan''
                                 then '' '' else py_str (strip_cell (xs ! i)))) \<and>
               (write_through lib \<longrightarrow>
                  (\<forall>i < length xs. xs ! i = NaN \<longrightarrow>
                     ys ! i = StrV '' '' \<and> ys ! i \<noteq> StrV [] \<and> ys ! i \<noteq> NoneV)) \<and>
               (\<forall>i < length xs. xs ! i = NoneV \<longrightarrow> ys ! i = StrV ''None'') \<and>
               (\<forall>i < length xs. xs ! i = NaT \<longrightarrow> ys ! i = StrV ''NaT'') \<and>
               NoneV \<notin> set ys"
    by (intro exI [of _ ys]) simp
next
  fix t cs df'
  show "convert_dataframe_dtypes lib df schema_info \<noteq> (Inl (ConvertFailed c t cs), df')"
  proof
    assume "convert_dataframe_dtypes lib df schema_info = (Inl (ConvertFailed c t cs), df')"
    then have "convert_columns lib schema_info (prepass df) = (Inl (ConvertFailed c t cs), df')"
      by (simp add: convert_dataframe_dtypes_def)
    from convert_columns_failure [OF assms(1) this] obtain zs where
      mem: "(c, t) \<in> set schema_info" and "convert_series lib t zs = Inl cs"
      by auto
    moreover from assms(1,2) mem have "t = dtype" by (meson eq_key_imp_eq_value)
    ultimately show False using assms(3) by (simp add: convert_series_def convert_text_def)
  qed
qed

theorem text_column_placeholder_witness:
  "\<exists>ys. map_of (snd (convert_dataframe_dtypes example_library
      [(''first_name'', [StrV ''Ada'', NaN, FloatV ''42.0''])]
      [(''first_name'', ''VARCHAR(50)'')])) ''first_name'' = Some ys
     \<and> length ys = 3 \<and> ys ! 0 = StrV ''Ada'' \<and> ys ! 1 = StrV '' '' \<and> ys ! 2 = StrV ''42''"
proof -
  let ?xs = "[StrV ''Ada'', NaN, FloatV ''42.0'']"
  let ?df = "[(''first_name'', ?xs)]"
  let ?schema = "[(''first_name'', ''VARCHAR(50)'')]"
  have h1: "distinct (map fst ?schema)" by simp
  have h2: "(''first_name'', ''VARCHAR(50)'') \<in> set ?schema" by simp
  have h3: "family_of ''VARCHAR(50)'' = TextFamily" by code_simp
  have h4: "map_of ?df ''first_name'' = Some ?xs" by simp
  have run: "convert_dataframe_dtypes example_library ?df ?schema
      = (Inr PyNone, snd (convert_dataframe_dtypes example_library ?df ?schema))"
    by code_simp
  have wt: "write_through example_library" by (simp add: example_library_def)
  have s0: "py_str (strip_cell (?xs ! 0)) = ''Ada''" by code_simp
  have s1: "py_str (strip_cell (?xs ! 1)) = ''nan''" by code_simp
  have s2: "py_str (strip_cell (?xs ! 2)) = ''42''" by code_simp
  from text_column_placeholder [OF h1 h2 h3 h4, of example_library] run
  obtain ys where ys: "map_of (snd (convert_dataframe_dtypes example_library ?df ?schema))
        ''first_name'' = Some ys" "length ys = length ?xs"
    and cells: "\<forall>i < length ?xs.
        ys ! i = StrV (if write_through example_library \<and> py_str (strip_cell (?xs ! i)) = ''nan''
                       then '' '' else py_str (strip_cell (?xs ! i)))"
    by blast
  have "ys ! 0 = StrV ''Ada''" using cells [rule_format, of 0] s0 by simp
  moreover have "ys ! 1 = StrV '' ''" using cells [rule_format, of 1] s1 wt by simp
  moreover have "ys ! 2 = StrV ''42''" using cells [rule_format, of 2] s2 by simp
  ultimately show ?thesis using ys by simp
qed

lemma nan_stays_without_write_through:
  assumes "\<not> write_through lib"
  shows "convert_dataframe_dtypes lib [(''first_name'', [NaN])] [(''first_name'', ''TEXT'')]
       = (Inr PyNone, [(''first_name'', [StrV ''nan''])])"
  using assms
  by (simp add: convert_dataframe_dtypes_def prepass_def strip_cell_def family_of_def
      convert_series_def convert_text_def text_cell_def)

text \<open>
  \<^bold>\<open>C10.\<close> A column whose declared type is boolean holds, after a coercion pass that
  returns, one of the two booleans in every cell, never NULL; a missing value (NaN) has
  become \<open>True\<close>.
\<close>

theorem boolean_column_total:
  assumes "distinct (map fst schema_info)"
    and "(c, dtype) \<in> set schema_info"
    and "family_of dtype = BooleanFamily"
    and "map_of df c = Some xs"
    and "convert_dataframe_dtypes lib df schema_info = (Inr v, df')"
  shows "\<exists>ys. map_of df' c = Some ys \<and> length ys = length xs \<and>
           (\<forall>i < length xs. ys ! i = BoolV (py_bool (strip_cell (xs ! i))) \<and> ys ! i \<noteq> NoneV) \<and>
           (\<forall>i < length xs. xs ! i = NaN \<longrightarrow> ys ! i = BoolV True)"
proof -
  let ?xs = "map strip_cell xs"
  have col: "map_of (prepass df) c = Some ?xs" using assms(4) by (simp add: map_of_prepass)
  from assms(5) have "convert_columns lib schema_info (prepass df) = (Inr v, df')"
    by (simp add: convert_dataframe_dtypes_def)
  from convert_columns_success_col [OF assms(1) this assms(2) col]
  obtain ys where ys: "convert_series lib dtype ?xs = Inr ys" "map_of df' c = Some ys" by blast
  from ys(1) assms(3) have eq: "ys = map (\<lambda>x. BoolV (py_bool x)) ?xs"
    by (simp add: convert_series_def convert_boolean_def)
  have "\<forall>i < length xs. xs ! i = NaN \<longrightarrow> ys ! i = BoolV True"
    using eq by (simp add: strip_cell_def)
  then show ?thesis using ys(2) eq by simp
qed

theorem boolean_column_total_witness:
  "\<exists>ys. map_of (snd (convert_dataframe_dtypes example_library
      [(''is_active'', [BoolV False, NaN, StrV ''False''])]
      [(''is_active'', ''BOOLEAN'')])) ''is_active'' = Some ys
     \<and> length ys = 3 \<and> ys ! 1 = BoolV True"
proof -
  let ?xs = "[BoolV False, NaN, StrV ''False'']"
  let ?df = "[(''is_active'', ?xs)]"
  let ?schema = "[(''is_active'', ''BOOLEAN'')]"
  have h1: "distinct (map fst ?schema)" by simp
  have h2: "(''is_active'', ''BOOLEAN'') \<in> set ?schema" by simp
  have h3: "family_of ''BOOLEAN'' = BooleanFamily" by code_simp
  have h4: "map_of ?df ''is_active'' = Some ?xs" by simp
  have run: "convert_dataframe_dtypes example_library ?df ?schema
      = (Inr PyNone, snd (convert_dataframe_dtypes example_library ?df ?schema))"
    by code_simp
  from boolean_column_total [OF h1 h2 h3 h4 run]
  obtain ys where ys: "map_of (snd (convert_dataframe_dtypes example_library ?df ?schema))
        ''is_active'' = Some ys" "length ys = length ?xs"
    and missing: "\<forall>i < length ?xs. ?xs ! i = NaN \<longrightarrow> ys ! i = BoolV True"
    by blast
  have "ys ! 1 = BoolV True" using missing [rule_format, of 1] by simp
  then show ?thesis using ys by simp
qed

text \<open>
  \<^bold>\<open>C4.\<close> A failed pass does not leave every column of the batch unmodified: the
  frame is mutated in place, column by column. Here the text column is coerced before the
  conversion of the integer column raises.
\<close>

theorem failed_pass_leaves_coerced_column:
  "convert_dataframe_dtypes example_library
      [(''first_name'', [IntV 7]), (''lms_user_id'', [StrV ''3.7''])]
      [(''first_name'', ''VARCHAR(50)''), (''lms_user_id'', ''INTEGER'')]
   = (Inl (ConvertFailed ''lms_user_id'' ''INTEGER'' UnsafeCast),
      [(''first_name'', [StrV ''7'']), (''lms_user_id'', [StrV ''3.7''])])
   \<and> [(''first_name'', [StrV ''7'']), (''lms_user_id'', [StrV ''3.7''])]
       \<noteq> [(''first_name'', [IntV 7]), (''lms_user_id'', [StrV ''3.7''])]"
  by code_simp

text \<open>
  \<^bold>\<open>C4, as amended.\<close> The pass aborts at the first column whose conversion raises, with
  an error that names that column and its declared type; whenever the conversion of some
  schema column of the batch raises, the pass does not return normally. The frame is
  mutated in place and not restored: after the abort it is the pre-passed frame with
  exactly the schema columns before the failing one coerced, and the failing column holds
  its pre-pass values.
\<close>

theorem failed_pass_names_column:
  assumes "distinct (map fst schema_info)"
  shows "(\<forall>pre c dtype post df1 xs cs.
            schema_info = pre @ (c, dtype) # post \<and>
            convert_columns lib pre (prepass df) = (Inr PyNone, df1) \<and>
            map_of df1 c = Some xs \<and> convert_series lib dtype xs = Inl cs
            \<longrightarrow> convert_dataframe_dtypes lib df schema_info = (Inl (ConvertFailed c dtype cs), df1))
       \<and> (\<forall>c dtype xs cs.
            (c, dtype) \<in> set schema_info \<and> map_of df c = Some xs \<and>
            convert_series lib dtype (map strip_cell xs) = Inl cs
            \<longrightarrow> (\<exists>e df'. convert_dataframe_dtypes lib df schema_info = (Inl e, df')))
       \<and> (\<forall>e df'. convert_dataframe_dtypes lib df schema_info = (Inl e, df') \<longrightarrow>
            (\<exists>pre c dtype post cs xs.
               e = ConvertFailed c dtype cs \<and> schema_info = pre @ (c, dtype) # post \<and>
               convert_columns lib pre (prepass df) = (Inr PyNone, df') \<and>
               map_of df c = Some xs \<and> map_of df' c = Some (map strip_cell xs) \<and>
               convert_series lib dtype (map strip_cell xs) = Inl cs))"
proof (intro conjI allI impI)
  fix pre c dtype post df1 xs cs
  assume a: "schema_info = pre @ (c, dtype) # post \<and>
            convert_columns lib pre (prepass df) = (Inr PyNone, df1) \<and>
            map_of df1 c = Some xs \<and> convert_series lib dtype xs = Inl cs"
  then show "convert_dataframe_dtypes lib df schema_info = (Inl (ConvertFailed c dtype cs), df1)"
    by (simp add: convert_dataframe_dtypes_def convert_columns_append)
next
  fix c dtype xs cs
  assume a: "(c, dtype) \<in> set schema_info \<and> map_of df c = Some xs \<and>
            convert_series lib dtype (map strip_cell xs) = Inl cs"
  obtain r df' where run: "convert_columns lib schema_info (prepass df) = (r, df')"
    by (cases "convert_columns lib schema_info (prepass df)")
  show "\<exists>e df'. convert_dataframe_dtypes lib df schema_info = (Inl e, df')"
  proof (cases r)
    case (Inl e)
    with run show ?thesis by (simp add: convert_dataframe_dtypes_def)
  next
    case (Inr v)
    from a have col: "map_of (prepass df) c = Some (map strip_cell xs)"
      by (simp add: map_of_prepass)
    from a have mem: "(c, dtype) \<in> set schema_info" by simp
    from run Inr have "convert_columns lib schema_info (prepass df) = (Inr v, df')" by simp
    from convert_columns_success_col [OF assms this mem col] a show ?thesis by auto
  qed
next
  fix e df'
  assume "convert_dataframe_dtypes lib df schema_info = (Inl e, df')"
  then have run: "convert_columns lib schema_info (prepass df) = (Inl e, df')"
    by (simp add: convert_dataframe_dtypes_def)
  from convert_columns_failure_split [OF run] obtain pre c dtype post cs ys where
    r: "schema_info = pre @ (c, dtype) # post"
       "convert_columns lib pre (prepass df) = (Inr PyNone, df')"
       "map_of df' c = Some ys" "convert_series lib dtype ys = Inl cs"
       "e = ConvertFailed c dtype cs"
    by blast
  from assms r(1) have "c \<notin> fst ` set pre" by auto
  from convert_columns_untouched [OF this, of lib "prepass df"] r(2,3)
  have "map_of (prepass df) c = Some ys" by simp
  then obtain xs where "map_of df c = Some xs" "ys = map strip_cell xs"
    by (auto simp: map_of_prepass)
  with r show "\<exists>pre c dtype post cs xs.
               e = ConvertFailed c dtype cs \<and> schema_info = pre @ (c, dtype) # post \<and>
               convert_columns lib pre (prepass df) = (Inr PyNone, df') \<and>
               map_of df c = Some xs \<and> map_of df' c = Some (map strip_cell xs) \<and>
               convert_series lib dtype (map strip_cell xs) = Inl cs"
    by blast
qed

theorem failed_pass_names_column_witness:
  "convert_dataframe_dtypes example_library
      [(''first_name'', [IntV 7]), (''lms_user_id'', [StrV ''3.7''])]
      [(''first_name'', ''VARCHAR(50)''), (''lms_user_id'', ''INTEGER'')]
   = (Inl (ConvertFailed ''lms_user_id'' ''INTEGER'' UnsafeCast),
      [(''first_name'', [StrV ''7'']), (''lms_user_id'', [StrV ''3.7''])])"
proof -
  let ?df = "[(''first_name'', [IntV 7]), (''lms_user_id'', [StrV ''3.7''])]"
  let ?schema = "[(''first_name'', ''VARCHAR(50)''), (''lms_user_id'', ''INTEGER'')]"
  let ?df1 = "[(''first_name'', [StrV ''7'']), (''lms_user_id'', [StrV ''3.7''])]"
  have h1: "distinct (map fst ?schema)" by simp
  have split: "?schema = [(''first_name'', ''VARCHAR(50)'')] @ (''lms_user_id'', ''INTEGER'') # []"
    by simp
  have before: "convert_columns example_library [(''first_name'', ''VARCHAR(50)'')] (prepass ?df)
      = (Inr PyNone, ?df1)"
    by code_simp
  have col: "map_of ?df1 ''lms_user_id'' = Some [StrV ''3.7'']" by simp
  have raises: "convert_series example_library ''INTEGER'' [StrV ''3.7''] = Inl UnsafeCast"
    by code_simp
  from failed_pass_names_column [OF h1, of example_library ?df] split before col raises
  show ?thesis by blast
qed

text \<open>
  \<^bold>\<open>C6.\<close> The pre-pass deletes every occurrence of \<^verbatim>\<open>.0\<close> in the rendering of a float,
  not only a trailing one: the float 10.05 becomes the text 105.
\<close>

theorem prepass_deletes_inner_dot_zero:
  "convert_dataframe_dtypes lib [(''score'', [FloatV ''10.05''])] [(''score'', ''VARCHAR(10)'')]
     = (Inr PyNone, [(''score'', [StrV ''105''])])"
  by (simp add: convert_dataframe_dtypes_def prepass_def strip_cell_def family_of_def
      convert_series_def convert_text_def text_cell_def)

lemma prepass_strips_trailing_dot_zero:
  "convert_dataframe_dtypes example_library
     [(''first_name'', [FloatV ''42.0'']), (''lms_user_id'', [FloatV ''42.0''])]
     [(''first_name'', ''VARCHAR(50)''), (''lms_user_id'', ''INTEGER'')]
   = (Inr PyNone, [(''first_name'', [StrV ''42'']), (''lms_user_id'', [IntV 42])])"
  by code_simp


section \<open>Properties of the datetime normaliser\<close>

subsection \<open>The format\<close>

lemma digit_char_digit:
  assumes "y < 10"
  shows "digit_char y \<in> set ''0123456789''" and "digit_value (digit_char y) = int y"
proof -
  from assms have "y = 0 \<or> y = 1 \<or> y = 2 \<or> y = 3 \<or> y = 4 \<or> y = 5 \<or> y = 6 \<or> y = 7 \<or> y = 8 \<or> y = 9"
    by arith
  then show "digit_char y \<in> set ''0123456789''" and "digit_value (digit_char y) = int y"
    by (auto simp: digit_char_def digit_value_def)
qed

lemma month_stage:
  assumes "1 \<le> M" and "M \<le> 12"
  shows "followed_by match_month (literal CHR ''-'') (pad2 M @ CHR ''-'' # r) = [(M, r)]"
proof -
  from assms have "M = 1 \<or> M = 2 \<or> M = 3 \<or> M = 4 \<or> M = 5 \<or> M = 6 \<or> M = 7 \<or> M = 8 \<or> M = 9 \<or>
      M = 10 \<or> M = 11 \<or> M = 12" by arith
  then show ?thesis
    by (elim disjE) (simp_all add: match_month_def pad2_def show_int_def show_nat.simps digit_char_def digit_value_def two_of_def one_of_def literal_def followed_by_def)
qed

lemma day_stage:
  assumes "1 \<le> D" and "D \<le> 31"
  shows "followed_by match_day (literal CHR ''-'') (pad2 D @ CHR ''-'' # r) = [(D, r)]"
proof -
  from assms have "D = 1 \<or> D = 2 \<or> D = 3 \<or> D = 4 \<or> D = 5 \<or> D = 6 \<or> D = 7 \<or> D = 8 \<or> D = 9 \<or>
      D = 10 \<or> D = 11 \<or> D = 12 \<or> D = 13 \<or> D = 14 \<or> D = 15 \<or> D = 16 \<or> D = 17 \<or> D = 18 \<or>
      D = 19 \<or> D = 20 \<or> D = 21 \<or> D = 22 \<or> D = 23 \<or> D = 24 \<or> D = 25 \<or> D = 26 \<or> D = 27 \<or>
      D = 28 \<or> D = 29 \<or> D = 30 \<or> D = 31" by arith
  then show ?thesis
    by (elim disjE) (simp_all add: match_day_def pad2_def show_int_def show_nat.simps digit_char_def digit_value_def two_of_def one_of_def literal_def followed_by_def)
qed

lemma hour_stage:
  assumes "0 \<le> H" and "H \<le> 23"
  shows "followed_by match_hour (literal CHR '':'') (pad2 H @ CHR '':'' # r) = [(H, r)]"
proof -
  from assms have "H = 0 \<or> H = 1 \<or> H = 2 \<or> H = 3 \<or> H = 4 \<or> H = 5 \<or> H = 6 \<or> H = 7 \<or> H = 8 \<or>
      H = 9 \<or> H = 10 \<or> H = 11 \<or> H = 12 \<or> H = 13 \<or> H = 14 \<or> H = 15 \<or> H = 16 \<or> H = 17 \<or>
      H = 18 \<or> H = 19 \<or> H = 20 \<or> H = 21 \<or> H = 22 \<or> H = 23" by arith
  then show ?thesis
    by (elim disjE) (simp_all add: match_hour_def pad2_def show_int_def show_nat.simps digit_char_def digit_value_def two_of_def one_of_def literal_def followed_by_def)
qed

lemma minute_stage:
  assumes "0 \<le> N" and "N \<le> 59"
  shows "followed_by match_minute (literal CHR '':'') (pad2 N @ CHR '':'' # r) = [(N, r)]"
proof -
  from assms have "N = 0 \<or> N = 1 \<or> N = 2 \<or> N = 3 \<or> N = 4 \<or> N = 5 \<or> N = 6 \<or> N = 7 \<or> N = 8 \<or>
      N = 9 \<or> N = 10 \<or> N = 11 \<or> N = 12 \<or> N = 13 \<or> N = 14 \<or> N = 15 \<or> N = 16 \<or> N = 17 \<or>
      N = 18 \<or> N = 19 \<or> N = 20 \<or> N = 21 \<or> N = 22 \<or> N = 23 \<or> N = 24 \<or> N = 25 \<or> N = 26 \<or>
      N = 27 \<or> N = 28 \<or> N = 29 \<or> N = 30 \<or> N = 31 \<or> N = 32 \<or> N = 33 \<or> N = 34 \<or> N = 35 \<or>
      N = 36 \<or> N = 37 \<or> N = 38 \<or> N = 39 \<or> N = 40 \<or> N = 41 \<or> N = 42 \<or> N = 43 \<or> N = 44 \<or>
      N = 45 \<or> N = 46 \<or> N = 47 \<or> N = 48 \<or> N = 49 \<or> N = 50 \<or> N = 51 \<or> N = 52 \<or> N = 53 \<or>
      N = 54 \<or> N = 55 \<or> N = 56 \<or> N = 57 \<or> N = 58 \<or> N = 59" by arith
  then show ?thesis
    by (elim disjE) (simp_all add: match_minute_def pad2_def show_int_def show_nat.simps digit_char_def digit_value_def two_of_def one_of_def literal_def followed_by_def)
qed

lemma second_stage:
  assumes "0 \<le> S" and "S \<le> 59"
  shows "\<exists>more. match_second (pad2 S) = (S, []) # more"
proof -
  from assms have "S = 0 \<or> S = 1 \<or> S = 2 \<or> S = 3 \<or> S = 4 \<or> S = 5 \<or> S = 6 \<or> S = 7 \<or> S = 8 \<or>
      S = 9 \<or> S = 10 \<or> S = 11 \<or> S = 12 \<or> S = 13 \<or> S = 14 \<or> S = 15 \<or> S = 16 \<or> S = 17 \<or>
      S = 18 \<or> S = 19 \<or> S = 20 \<or> S = 21 \<or> S = 22 \<or> S = 23 \<or> S = 24 \<or> S = 25 \<or> S = 26 \<or>
      S = 27 \<or> S = 28 \<or> S = 29 \<or> S = 30 \<or> S = 31 \<or> S = 32 \<or> S = 33 \<or> S = 34 \<or> S = 35 \<or>
      S = 36 \<or> S = 37 \<or> S = 38 \<or> S = 39 \<or> S = 40 \<or> S = 41 \<or> S = 42 \<or> S = 43 \<or> S = 44 \<or>
      S = 45 \<or> S = 46 \<or> S = 47 \<or> S = 48 \<or> S = 49 \<or> S = 50 \<or> S = 51 \<or> S = 52 \<or> S = 53 \<or>
      S = 54 \<or> S = 55 \<or> S = 56 \<or> S = 57 \<or> S = 58 \<or> S = 59" by arith
  then show ?thesis
    by (elim disjE) (simp_all add: match_second_def pad2_def show_int_def show_nat.simps digit_char_def digit_value_def two_of_def one_of_def literal_def followed_by_def)
qed

lemma hour_not_space:
  assumes "0 \<le> H" and "H \<le> 23"
  shows "match_spaces (CHR '' '' # pad2 H @ r) = [pad2 H @ r]"
proof -
  from assms have "H = 0 \<or> H = 1 \<or> H = 2 \<or> H = 3 \<or> H = 4 \<or> H = 5 \<or> H = 6 \<or> H = 7 \<or> H = 8 \<or>
      H = 9 \<or> H = 10 \<or> H = 11 \<or> H = 12 \<or> H = 13 \<or> H = 14 \<or> H = 15 \<or> H = 16 \<or> H = 17 \<or>
      H = 18 \<or> H = 19 \<or> H = 20 \<or> H = 21 \<or> H = 22 \<or> H = 23" by arith
  then show ?thesis
    by (elim disjE) (simp_all add: is_space_def pad2_def show_int_def show_nat.simps digit_char_def digit_value_def two_of_def one_of_def literal_def followed_by_def)
qed

lemma year_stage:
  assumes "y1 < 10" and "y2 < 10" and "y3 < 10" and "y4 < 10" and "0 \<le> H" and "H \<le> 23"
  shows "followed_by match_year match_spaces
           (digit_char y1 # digit_char y2 # digit_char y3 # digit_char y4 # CHR '' '' # pad2 H @ r)
         = [(1000 * int y1 + 100 * int y2 + 10 * int y3 + int y4, pad2 H @ r)]"
proof -
  have "match_year (digit_char y1 # digit_char y2 # digit_char y3 # digit_char y4 # CHR '' '' # pad2 H @ r)
      = [(1000 * int y1 + 100 * int y2 + 10 * int y3 + int y4, CHR '' '' # pad2 H @ r)]"
    using digit_char_digit [OF assms(1)] digit_char_digit [OF assms(2)]
      digit_char_digit [OF assms(3)] digit_char_digit [OF assms(4)]
    by (simp add: match_year_def)
  then show ?thesis
    using hour_not_space [OF assms(5,6), of r] by (simp add: followed_by_def)
qed

lemma strptime_conforms:
  assumes "1 \<le> M" "M \<le> 12" "1 \<le> D" "D \<le> 31" "0 \<le> H" "H \<le> 23" "0 \<le> N" "N \<le> 59"
    "0 \<le> S" "S \<le> 59" "y1 < 10" "y2 < 10" "y3 < 10" "y4 < 10"
  shows "strptime (pad2 M @ ''-'' @ pad2 D @ ''-'' @
                    [digit_char y1, digit_char y2, digit_char y3, digit_char y4] @ '' '' @
                    pad2 H @ '':'' @ pad2 N @ '':'' @ pad2 S)
         = (let Y = 1000 * int y1 + 100 * int y2 + 10 * int y3 + int y4;
                t = epoch_seconds Y M D H N S
            in if 1 \<le> Y \<and> D \<le> days_in_month Y M \<and> - 9223372036 \<le> t \<and> t \<le> 9223372036
               then Some t else None)"
proof -
  from second_stage [OF assms(9,10)] obtain more where
    sec: "match_second (pad2 S) = (S, []) # more" by blast
  have "match_format (pad2 M @ ''-'' @ pad2 D @ ''-'' @
                    [digit_char y1, digit_char y2, digit_char y3, digit_char y4] @ '' '' @
                    pad2 H @ '':'' @ pad2 N @ '':'' @ pad2 S)
      = map (\<lambda>(se, r). ((1000 * int y1 + 100 * int y2 + 10 * int y3 + int y4, M, D, H, N, se), r))
          ((S, []) # more)"
    using month_stage [OF assms(1,2)] day_stage [OF assms(3,4)] hour_stage [OF assms(5,6)]
      minute_stage [OF assms(7,8)] year_stage [OF assms(11,12,13,14) assms(5,6)] sec
    by (simp add: match_format_def)
  then show ?thesis by (simp add: strptime_def Let_def)
qed

lemma strptime_needs_hyphen:
  assumes "CHR ''-'' \<notin> set s"
  shows "strptime s = None"
proof -
  have "followed_by match_month (literal CHR ''-'') s = []"
    using assms
    by (auto simp: followed_by_def match_month_def two_of_def one_of_def literal_def
        split: list.splits if_splits)
  then show ?thesis by (simp add: strptime_def match_format_def)
qed

subsection \<open>The listed columns\<close>

lemma normalize_series_shape:
  "\<forall>y \<in> set (normalize_series lib xs). y = NoneV \<or> (\<exists>t. y = TsV t UTC)"
  by (auto simp: normalize_series_def Let_def replace_nat_none_def tz_localize_utc_def
      tz_convert_utc_def split: option.splits)

lemma normalize_series_unmixed:
  assumes "(\<forall>t. TsV t UTC \<notin> set xs) \<or> (\<forall>x \<in> set xs. \<forall>t. to_datetime_cell x \<noteq> Some (t, Naive))"
  shows "normalize_series lib xs
       = map (\<lambda>x. case to_datetime_cell x of Some (t, z) \<Rightarrow> TsV t UTC | None \<Rightarrow> NoneV) xs"
proof -
  let ?ps = "map to_datetime_cell xs"
  let ?zs = "map snd (List.map_filter id ?ps)"
  have "\<not> (Naive \<in> set ?zs \<and> UTC \<in> set ?zs)"
  proof
    assume both: "Naive \<in> set ?zs \<and> UTC \<in> set ?zs"
    then obtain x t where x: "x \<in> set xs" "to_datetime_cell x = Some (t, Naive)"
      by (auto simp: List.map_filter_def)
    from both obtain y u where y: "y \<in> set xs" "to_datetime_cell y = Some (u, UTC)"
      by (auto simp: List.map_filter_def)
    from y(2) have "y = TsV u UTC" by (cases y) auto
    with x y(1) assms show False by blast
  qed
  then have "to_datetime_format lib xs
      = (map (map_option fst) ?ps, if UTC \<in> set ?zs then UTC else Naive)"
    unfolding to_datetime_format_def Let_def by (rule if_not_P)
  then show ?thesis
    by (auto simp: normalize_series_def Let_def replace_nat_none_def tz_localize_utc_def
        tz_convert_utc_def split: option.splits)
qed

lemma normalize_series_idem:
  assumes "\<forall>y \<in> set ys. y = NoneV \<or> (\<exists>t. y = TsV t UTC)"
  shows "normalize_series lib ys = ys"
proof -
  from assms have "\<forall>x \<in> set ys. \<forall>t. to_datetime_cell x \<noteq> Some (t, Naive)" by auto
  then have "normalize_series lib ys
      = map (\<lambda>x. case to_datetime_cell x of Some (t, z) \<Rightarrow> TsV t UTC | None \<Rightarrow> NoneV) ys"
    using normalize_series_unmixed by blast
  also have "\<dots> = ys" using assms by (induction ys) auto
  finally show ?thesis .
qed

lemma parse_datetime_columns_run:
  assumes "\<forall>c \<in> set cs. map_of df c \<noteq> None"
  shows "\<exists>df'. parse_datetime_columns lib df cs = (Inr PyNone, df') \<and>
           (\<forall>c \<in> set cs. \<exists>xs. map_of df c = Some xs \<and> map_of df' c = Some (normalize_series lib xs)) \<and>
           (\<forall>c. c \<notin> set cs \<longrightarrow> map_of df' c = map_of df c)"
  using assms
proof (induction cs arbitrary: df)
  case Nil
  then show ?case by simp
next
  case (Cons c cs)
  from Cons.prems obtain xs where xs: "map_of df c = Some xs" by auto
  let ?ys = "normalize_series lib xs"
  let ?df1 = "set_column c ?ys df"
  have again: "normalize_series lib ?ys = ?ys"
    by (rule normalize_series_idem [OF normalize_series_shape])
  have pre: "\<forall>k \<in> set cs. map_of ?df1 k \<noteq> None"
    using Cons.prems by (simp add: map_of_set_column)
  from Cons.IH [OF pre] obtain df' where
    run: "parse_datetime_columns lib ?df1 cs = (Inr PyNone, df')"
    and fin: "\<forall>k \<in> set cs. \<exists>zs. map_of ?df1 k = Some zs \<and> map_of df' k = Some (normalize_series lib zs)"
    and rest: "\<forall>k. k \<notin> set cs \<longrightarrow> map_of df' k = map_of ?df1 k"
    by blast
  have step: "parse_datetime_columns lib df (c # cs) = (Inr PyNone, df')"
    using xs run by simp
  have head: "map_of df' c = Some ?ys"
  proof (cases "c \<in> set cs")
    case True
    with fin obtain zs where "map_of ?df1 c = Some zs" "map_of df' c = Some (normalize_series lib zs)"
      by blast
    then show ?thesis using again by (simp add: map_of_set_column)
  next
    case False
    with rest have "map_of df' c = map_of ?df1 c" by blast
    then show ?thesis by (simp add: map_of_set_column)
  qed
  have tail: "\<exists>zs. map_of df k = Some zs \<and> map_of df' k = Some (normalize_series lib zs)"
    if k: "k \<in> set cs" for k
  proof (cases "k = c")
    case True
    with xs head show ?thesis by simp
  next
    case False
    from fin k obtain zs where "map_of ?df1 k = Some zs" "map_of df' k = Some (normalize_series lib zs)"
      by blast
    with False show ?thesis by (simp add: map_of_set_column)
  qed
  have others: "\<forall>k. k \<notin> set (c # cs) \<longrightarrow> map_of df' k = map_of df k"
    using rest by (simp add: map_of_set_column)
  from step head tail others xs show ?case by auto
qed

lemma strptime_example: "strptime ''03-15-2024 10:30:00'' = Some (epoch_seconds 2024 3 15 10 30 0)"
  by code_simp

lemma strptime_not_a_date: "strptime ''not-a-date'' = None"
  by code_simp

text \<open>
  \<^bold>\<open>C8.\<close> On a frame that has the listed columns the normaliser returns without
  raising, and every cell of a listed column is then a UTC instant or NULL. In a listed
  column that does not mix timezone-aware timestamps with naive values (a column of texts
  as read from CSV holds no aware timestamp, a column the coercer has localised holds no
  naive value) a text that matches the format \<^verbatim>\<open>%m-%d-%Y %H:%M:%S\<close> becomes the instant
  it names, tagged UTC, and a text that does not match becomes NULL. The format is the one
  of the source: a text of two-digit month, day, hour, minute and second and a four-digit
  year, separated as in \<^verbatim>\<open>MM-DD-YYYY HH:MM:SS\<close>, is read as the instant of these fields
  whenever they name a date of the calendar within the range of a timestamp, and is not
  read otherwise; a text without a hyphen is never read. The literal
  \<^verbatim>\<open>03-15-2024 10:30:00\<close> is read as 2024-03-15T10:30:00 and \<^verbatim>\<open>not-a-date\<close> is not
  read.
\<close>

theorem datetime_columns_normalized:
  assumes "\<forall>c \<in> set column_names. map_of df c \<noteq> None"
  shows "\<exists>df'. parse_datetime_columns lib df column_names = (Inr PyNone, df') \<and>
           (\<forall>c \<in> set column_names. \<exists>xs ys.
              map_of df c = Some xs \<and> map_of df' c = Some ys \<and>
              (\<forall>y \<in> set ys. y = NoneV \<or> (\<exists>t. y = TsV t UTC)) \<and>
              ((\<forall>t. TsV t UTC \<notin> set xs) \<or>
               (\<forall>x \<in> set xs. \<forall>t. to_datetime_cell x \<noteq> Some (t, Naive)) \<longrightarrow>
               length ys = length xs \<and>
               (\<forall>i < length xs.
                  (\<forall>s t. xs ! i = StrV s \<and> strptime s = Some t \<longrightarrow> ys ! i = TsV t UTC) \<and>
                  (\<forall>s. xs ! i = StrV s \<and> strptime s = None \<longrightarrow> ys ! i = NoneV) \<and>
                  (\<forall>t z. xs ! i = TsV t z \<longrightarrow> ys ! i = TsV t UTC) \<and>
                  ((\<forall>s. xs ! i \<noteq> StrV s) \<and> (\<forall>t z. xs ! i \<noteq> TsV t z) \<longrightarrow> ys ! i = NoneV)))) \<and>
           (\<forall>M D H N S y1 y2 y3 y4.
              1 \<le> M \<and> M \<le> 12 \<and> 1 \<le> D \<and> D \<le> 31 \<and> 0 \<le> H \<and> H \<le> 23 \<and> 0 \<le> N \<and> N \<le> 59 \<and>
              0 \<le> S \<and> S \<le> 59 \<and> y1 < 10 \<and> y2 < 10 \<and> y3 < 10 \<and> y4 < 10 \<longrightarrow>
              strptime (pad2 M @ ''-'' @ pad2 D @ ''-'' @
                        [digit_char y1, digit_char y2, digit_char y3, digit_char y4] @ '' '' @
                        pad2 H @ '':'' @ pad2 N @ '':'' @ pad2 S)
              = (let Y = 1000 * int y1 + 100 * int y2 + 10 * int y3 + int y4;
                     t = epoch_seconds Y M D H N S
                 in if 1 \<le> Y \<and> D \<le> days_in_month Y M \<and> - 9223372036 \<le> t \<and> t \<le> 9223372036
                    then Some t else None)) \<and>
           (\<forall>s. CHR ''-'' \<notin> set s \<longrightarrow> strptime s = None) \<and>
           strptime ''03-15-2024 10:30:00'' = Some (epoch_seconds 2024 3 15 10 30 0) \<and>
           strptime ''not-a-date'' = None"
proof -
  let ?norm = "\<lambda>x. case to_datetime_cell x of Some (t, z) \<Rightarrow> TsV t UTC | None \<Rightarrow> NoneV"
  from parse_datetime_columns_run [OF assms] obtain df' where
    run: "parse_datetime_columns lib df column_names = (Inr PyNone, df')"
    and fin: "\<forall>c \<in> set column_names. \<exists>xs. map_of df c = Some xs \<and>
                map_of df' c = Some (normalize_series lib xs)"
    by blast
  have cells: "\<exists>xs ys.
              map_of df c = Some xs \<and> map_of df' c = Some ys \<and>
              (\<forall>y \<in> set ys. y = NoneV \<or> (\<exists>t. y = TsV t UTC)) \<and>
              ((\<forall>t. TsV t UTC \<notin> set xs) \<or>
               (\<forall>x \<in> set xs. \<forall>t. to_datetime_cell x \<noteq> Some (t, Naive)) \<longrightarrow>
               length ys = length xs \<and>
               (\<forall>i < length xs.
                  (\<forall>s t. xs ! i = StrV s \<and> strptime s = Some t \<longrightarrow> ys ! i = TsV t UTC) \<and>
                  (\<forall>s. xs ! i = StrV s \<and> strptime s = None \<longrightarrow> ys ! i = NoneV) \<and>
                  (\<forall>t z. xs ! i = TsV t z \<longrightarrow> ys ! i = TsV t UTC) \<and>
                  ((\<forall>s. xs ! i \<noteq> StrV s) \<and> (\<forall>t z. xs ! i \<noteq> TsV t z) \<longrightarrow> ys ! i = NoneV)))"
    if c: "c \<in> set column_names" for c
  proof -
    from fin c obtain xs where xs: "map_of df c = Some xs"
      "map_of df' c = Some (normalize_series lib xs)" by blast
    let ?ys = "normalize_series lib xs"
    have shape: "\<forall>y \<in> set ?ys. y = NoneV \<or> (\<exists>t. y = TsV t UTC)"
      by (rule normalize_series_shape)
    have unmixed: "length ?ys = length xs \<and>
               (\<forall>i < length xs.
                  (\<forall>s t. xs ! i = StrV s \<and> strptime s = Some t \<longrightarrow> ?ys ! i = TsV t UTC) \<and>
                  (\<forall>s. xs ! i = StrV s \<and> strptime s = None \<longrightarrow> ?ys ! i = NoneV) \<and>
                  (\<forall>t z. xs ! i = TsV t z \<longrightarrow> ?ys ! i = TsV t UTC) \<and>
                  ((\<forall>s. xs ! i \<noteq> StrV s) \<and> (\<forall>t z. xs ! i \<noteq> TsV t z) \<longrightarrow> ?ys ! i = NoneV))"
      if u: "(\<forall>t. TsV t UTC \<notin> set xs) \<or>
               (\<forall>x \<in> set xs. \<forall>t. to_datetime_cell x \<noteq> Some (t, Naive))"
    proof -
      have eq: "?ys = map ?norm xs" by (rule normalize_series_unmixed [OF u])
      have "(\<forall>s. xs ! i \<noteq> StrV s) \<and> (\<forall>t z. xs ! i \<noteq> TsV t z) \<longrightarrow> ?norm (xs ! i) = NoneV" for i
        by (cases "xs ! i") auto
      then show ?thesis unfolding eq by (auto split: option.splits)
    qed
    from xs shape unmixed show ?thesis by blast
  qed
  have conf: "\<forall>M D H N S y1 y2 y3 y4.
              1 \<le> M \<and> M \<le> 12 \<and> 1 \<le> D \<and> D \<le> 31 \<and> 0 \<le> H \<and> H \<le> 23 \<and> 0 \<le> N \<and> N \<le> 59 \<and>
              0 \<le> S \<and> S \<le> 59 \<and> y1 < 10 \<and> y2 < 10 \<and> y3 < 10 \<and> y4 < 10 \<longrightarrow>
              strptime (pad2 M @ ''-'' @ pad2 D @ ''-'' @
                        [digit_char y1, digit_char y2, digit_char y3, digit_char y4] @ '' '' @
                        pad2 H @ '':'' @ pad2 N @ '':'' @ pad2 S)
              = (let Y = 1000 * int y1 + 100 * int y2 + 10 * int y3 + int y4;
                     t = epoch_seconds Y M D H N S
                 in if 1 \<le> Y \<and> D \<le> days_in_month Y M \<and> - 9223372036 \<le> t \<and> t \<le> 9223372036
                    then Some t else None)"
    using strptime_conforms by blast
  have hyphen: "\<forall>s. CHR ''-'' \<notin> set s \<longrightarrow> strptime s = None"
    using strptime_needs_hyphen by blast
  from run cells conf hyphen strptime_example strptime_not_a_date show ?thesis by blast
qed

theorem datetime_columns_normalized_witness:
  "parse_datetime_columns example_library
     [(''date_hired'', [StrV ''03-15-2024 10:30:00'', StrV ''not-a-date''])] [''date_hired'']
   = (Inr PyNone, [(''date_hired'', [TsV (epoch_seconds 2024 3 15 10 30 0) UTC, NoneV])])"
proof -
  let ?xs = "[StrV ''03-15-2024 10:30:00'', StrV ''not-a-date'']"
  let ?df = "[(''date_hired'', ?xs)]"
  have h: "\<forall>c \<in> set [''date_hired'']. map_of ?df c \<noteq> None" by simp
  from datetime_columns_normalized [OF h, of example_library] obtain df' where
    run: "parse_datetime_columns example_library ?df [''date_hired''] = (Inr PyNone, df')"
    and cols: "\<forall>c \<in> set [''date_hired'']. \<exists>xs ys.
              map_of ?df c = Some xs \<and> map_of df' c = Some ys \<and>
              (\<forall>y \<in> set ys. y = NoneV \<or> (\<exists>t. y = TsV t UTC)) \<and>
              ((\<forall>t. TsV t UTC \<notin> set xs) \<or>
               (\<forall>x \<in> set xs. \<forall>t. to_datetime_cell x \<noteq> Some (t, Naive)) \<longrightarrow>
               length ys = length xs \<and>
               (\<forall>i < length xs.
                  (\<forall>s t. xs ! i = StrV s \<and> strptime s = Some t \<longrightarrow> ys ! i = TsV t UTC) \<and>
                  (\<forall>s. xs ! i = StrV s \<and> strptime s = None \<longrightarrow> ys ! i = NoneV) \<and>
                  (\<forall>t z. xs ! i = TsV t z \<longrightarrow> ys ! i = TsV t UTC) \<and>
                  ((\<forall>s. xs ! i \<noteq> StrV s) \<and> (\<forall>t z. xs ! i \<noteq> TsV t z) \<longrightarrow> ys ! i = NoneV)))"
    and ex: "strptime ''03-15-2024 10:30:00'' = Some (epoch_seconds 2024 3 15 10 30 0)"
      "strptime ''not-a-date'' = None"
    by blast
  have mem: "''date_hired'' \<in> set [''date_hired'']" by simp
  from bspec [OF cols mem] obtain xs ys where
    col: "map_of ?df ''date_hired'' = Some xs" "map_of df' ''date_hired'' = Some ys"
    and unmixed: "(\<forall>t. TsV t UTC \<notin> set xs) \<or>
               (\<forall>x \<in> set xs. \<forall>t. to_datetime_cell x \<noteq> Some (t, Naive)) \<longrightarrow>
               length ys = length xs \<and>
               (\<forall>i < length xs.
                  (\<forall>s t. xs ! i = StrV s \<and> strptime s = Some t \<longrightarrow> ys ! i = TsV t UTC) \<and>
                  (\<forall>s. xs ! i = StrV s \<and> strptime s = None \<longrightarrow> ys ! i = NoneV) \<and>
                  (\<forall>t z. xs ! i = TsV t z \<longrightarrow> ys ! i = TsV t UTC) \<and>
                  ((\<forall>s. xs ! i \<noteq> StrV s) \<and> (\<forall>t z. xs ! i \<noteq> TsV t z) \<longrightarrow> ys ! i = NoneV))"
    by blast
  from col(1) have xs: "xs = ?xs" by simp
  have "\<forall>t. TsV t UTC \<notin> set xs" unfolding xs by simp
  with unmixed have len: "length ys = length xs"
    and cells: "\<forall>i < length xs.
                  (\<forall>s t. xs ! i = StrV s \<and> strptime s = Some t \<longrightarrow> ys ! i = TsV t UTC) \<and>
                  (\<forall>s. xs ! i = StrV s \<and> strptime s = None \<longrightarrow> ys ! i = NoneV) \<and>
                  (\<forall>t z. xs ! i = TsV t z \<longrightarrow> ys ! i = TsV t UTC) \<and>
                  ((\<forall>s. xs ! i \<noteq> StrV s) \<and> (\<forall>t z. xs ! i \<noteq> TsV t z) \<longrightarrow> ys ! i = NoneV)"
    by blast+
  have "ys ! 0 = TsV (epoch_seconds 2024 3 15 10 30 0) UTC"
    using cells [rule_format, of 0] ex(1) xs by simp
  moreover have "ys ! 1 = NoneV"
    using cells [rule_format, of 1] ex(2) xs by simp
  ultimately have "ys = [TsV (epoch_seconds 2024 3 15 10 30 0) UTC, NoneV]"
    using len xs by (auto simp: list_eq_iff_nth_eq less_Suc_eq)
  moreover have "df' = [(''date_hired'', ys)]"
    using run col(2) by (auto split: option.splits)
  ultimately show ?thesis using run by simp
qed


section \<open>Properties of the upsert engine\<close>

subsection \<open>One statement, and a batch of them\<close>

lemma do_update_key: "key \<notin> set cols \<Longrightarrow> do_update cols new old key = old key"
  by (simp add: do_update_def)

lemma do_update_twice: "do_update cols b (do_update cols a old) = do_update cols b old"
  by (rule ext) (simp add: do_update_def)

lemma do_update_self: "do_update cols a a = a"
  by (rule ext) (simp add: do_update_def)

lemma upsert_row_keys:
  assumes "key \<notin> set cols"
  shows "map (\<lambda>r. r key) (upsert_row key cols new t) =
           (if \<exists>old \<in> set t. conflicts key new old then map (\<lambda>r. r key) t
            else map (\<lambda>r. r key) t @ [new key])"
  using assms by (induction t) (auto simp: do_update_key)

lemma upsert_row_has_key:
  assumes "key \<notin> set cols"
  shows "\<exists>old \<in> set (upsert_row key cols new t). old key = new key"
  using assms by (induction t) (auto simp: conflicts_def do_update_key)

lemma upsert_row_keeps_key:
  assumes "key \<notin> set cols" and "\<exists>old \<in> set t. old key = k"
  shows "\<exists>old \<in> set (upsert_row key cols new t). old key = k"
  using assms by (induction t) (auto simp: conflicts_def do_update_key)

lemma upsert_row_idem:
  assumes "key \<notin> set cols" and "new key \<noteq> NoneV"
  shows "upsert_row key cols new (upsert_row key cols new t) = upsert_row key cols new t"
  using assms
  by (induction t) (auto simp: conflicts_def do_update_key do_update_twice do_update_self)

lemma upsert_row_override:
  assumes "key \<notin> set cols" and "a key = b key" and "b key \<noteq> NoneV"
    and "\<exists>old \<in> set t. old key = a key"
  shows "upsert_row key cols b (upsert_row key cols a t) = upsert_row key cols b t"
  using assms
  by (induction t) (auto simp: conflicts_def do_update_key do_update_twice)

lemma upsert_row_commute:
  assumes "key \<notin> set cols" and "a key \<noteq> b key" and "a key \<noteq> NoneV"
    and "\<exists>old \<in> set t. old key = a key"
  shows "upsert_row key cols b (upsert_row key cols a t)
       = upsert_row key cols a (upsert_row key cols b t)"
  using assms
  by (induction t) (auto simp: conflicts_def do_update_key)

lemma fold_keeps_key:
  assumes "key \<notin> set cols" and "\<exists>old \<in> set t. old key = k"
  shows "\<exists>old \<in> set (fold (upsert_row key cols) rs t). old key = k"
  using assms(2)
proof (induction rs arbitrary: t)
  case Nil
  then show ?case by simp
next
  case (Cons r rs)
  from upsert_row_keeps_key [of key cols t k r] assms(1) Cons.prems
  have "\<exists>old \<in> set (upsert_row key cols r t). old key = k" by blast
  from Cons.IH [OF this] show ?case by simp
qed

lemma fold_absorbs:
  assumes "key \<notin> set cols" and "a key \<noteq> NoneV"
    and "\<forall>r \<in> set rs. r key \<noteq> NoneV"
    and "\<exists>old \<in> set t. old key = a key"
    and "\<exists>q \<in> set rs. q key = a key"
  shows "fold (upsert_row key cols) rs (upsert_row key cols a t) = fold (upsert_row key cols) rs t"
  using assms(3,4,5)
proof (induction rs arbitrary: t)
  case Nil
  then show ?case by simp
next
  case (Cons q rs)
  show ?case
  proof (cases "q key = a key")
    case True
    from Cons.prems(1) have "q key \<noteq> NoneV" by simp
    with upsert_row_override [of key cols a q t] assms(1) True Cons.prems(2)
    have "upsert_row key cols q (upsert_row key cols a t) = upsert_row key cols q t" by simp
    then show ?thesis by simp
  next
    case False
    then have ne: "a key \<noteq> q key" by simp
    have comm: "upsert_row key cols q (upsert_row key cols a t)
        = upsert_row key cols a (upsert_row key cols q t)"
      using upsert_row_commute [of key cols a q t] assms(1) ne assms(2) Cons.prems(2) by simp
    have present: "\<exists>old \<in> set (upsert_row key cols q t). old key = a key"
      using upsert_row_keeps_key [of key cols t "a key" q] assms(1) Cons.prems(2) by simp
    from Cons.prems(3) False have later: "\<exists>q \<in> set rs. q key = a key" by auto
    from Cons.prems(1) have nn: "\<forall>r \<in> set rs. r key \<noteq> NoneV" by simp
    from Cons.IH [OF nn present later] comm show ?thesis by simp
  qed
qed

lemma fold_commute:
  assumes "key \<notin> set cols" and "a key \<noteq> NoneV"
    and "\<forall>r \<in> set rs. r key \<noteq> a key"
    and "\<exists>old \<in> set t. old key = a key"
  shows "upsert_row key cols a (fold (upsert_row key cols) rs t)
       = fold (upsert_row key cols) rs (upsert_row key cols a t)"
  using assms(3,4)
proof (induction rs arbitrary: t)
  case Nil
  then show ?case by simp
next
  case (Cons q rs)
  from Cons.prems(1) have ne: "a key \<noteq> q key" by auto
  have comm: "upsert_row key cols q (upsert_row key cols a t)
      = upsert_row key cols a (upsert_row key cols q t)"
    using upsert_row_commute [of key cols a q t] assms(1) ne assms(2) Cons.prems(2) by simp
  have present: "\<exists>old \<in> set (upsert_row key cols q t). old key = a key"
    using upsert_row_keeps_key [of key cols t "a key" q] assms(1) Cons.prems(2) by simp
  from Cons.prems(1) have rest: "\<forall>r \<in> set rs. r key \<noteq> a key" by simp
  from Cons.IH [OF rest present] comm show ?case by simp
qed

lemma fold_upsert_idem_suffix:
  assumes "key \<notin> set cols" and "\<forall>r \<in> set (ps @ rs). r key \<noteq> NoneV"
  shows "fold (upsert_row key cols) rs (fold (upsert_row key cols) (ps @ rs) t)
       = fold (upsert_row key cols) (ps @ rs) t"
  using assms(2)
proof (induction rs arbitrary: ps)
  case Nil
  then show ?case by simp
next
  case (Cons r rs)
  let ?U = "upsert_row key cols"
  let ?P = "fold ?U ps t"
  let ?X = "?U r ?P"
  let ?S = "fold ?U rs ?X"
  have S: "fold ?U (ps @ r # rs) t = ?S" by simp
  from Cons.prems have r: "r key \<noteq> NoneV" and nn: "\<forall>q \<in> set rs. q key \<noteq> NoneV"
    and all: "\<forall>q \<in> set ((ps @ [r]) @ rs). q key \<noteq> NoneV" by auto
  from Cons.IH [OF all] have ih: "fold ?U rs ?S = ?S" by simp
  have presX: "\<exists>old \<in> set ?X. old key = r key"
    using upsert_row_has_key [of key cols r ?P] assms(1) by simp
  have presS: "\<exists>old \<in> set ?S. old key = r key"
    using fold_keeps_key [of key cols ?X "r key" rs] assms(1) presX by simp
  have "fold ?U rs (?U r ?S) = ?S"
  proof (cases "\<exists>q \<in> set rs. q key = r key")
    case True
    from fold_absorbs [of key cols r rs ?S] assms(1) r nn presS True
    have "fold ?U rs (?U r ?S) = fold ?U rs ?S" by simp
    with ih show ?thesis by simp
  next
    case False
    then have "\<forall>q \<in> set rs. q key \<noteq> r key" by simp
    with fold_commute [of key cols r rs ?X] assms(1) r presX
    have "?U r ?S = fold ?U rs (?U r ?X)" by simp
    also have "?U r ?X = ?X" using upsert_row_idem [of key cols r ?P] assms(1) r by simp
    finally have "?U r ?S = ?S" .
    with ih show ?thesis by simp
  qed
  then show ?case unfolding S by simp
qed

lemma fold_upsert_idem:
  assumes "key \<notin> set cols" and "\<forall>r \<in> set rs. r key \<noteq> NoneV"
  shows "fold (upsert_row key cols) rs (fold (upsert_row key cols) rs t)
       = fold (upsert_row key cols) rs t"
  using fold_upsert_idem_suffix [of key cols "[]" rs t] assms by simp

subsection \<open>The transaction\<close>

lemma executemany_append:
  "executemany srv stmt (a @ b) t =
     (case executemany srv stmt a t of Inl e \<Rightarrow> Inl e | Inr t1 \<Rightarrow> executemany srv stmt b t1)"
  by (induction a arbitrary: t) (auto split: sum.splits)

lemma executemany_fold:
  assumes "executemany srv stmt records t = Inr t'"
  shows "t' = fold (upsert_row (conflict_column stmt) (update_columns stmt))
                (map (proposed srv) records) t"
  using assms
  by (induction records arbitrary: t) (auto simp: execute_one_def split: sum.splits if_splits)

lemma upsert_stmt_key: "unique_key \<notin> set (update_columns (upsert_stmt df table_name unique_key schema))"
  by (simp add: upsert_stmt_def)

lemma upsert_stmt_fields:
  "target (upsert_stmt df table_name unique_key schema) = (schema, table_name)"
  "conflict_column (upsert_stmt df table_name unique_key schema) = unique_key"
  "set (update_columns (upsert_stmt df table_name unique_key schema))
     = {c \<in> set (columns df). c \<noteq> unique_key}"
  by (auto simp: upsert_stmt_def)

lemma upsert_result:
  "upsert_dataframe_to_postgres srv df table_name db unique_key schema =
     (if to_records df = [] then (Inl (UpsertFailed MissingParameter), db)
      else case db (schema, table_name) of
        None \<Rightarrow> (Inl (UpsertFailed UndefinedTable), db)
      | Some t \<Rightarrow>
          (case executemany srv (upsert_stmt df table_name unique_key schema) (to_records df) t of
             Inl e \<Rightarrow> (Inl (UpsertFailed e), db)
           | Inr t' \<Rightarrow> (Inr PyNone, db((schema, table_name) \<mapsto> t'))))"
  by (simp add: upsert_dataframe_to_postgres_def transaction_def execute_def upsert_stmt_fields
      split: option.splits sum.splits)

text \<open>
  \<^bold>\<open>C1.\<close> The batch is executed inside one transaction. If the statement fails on
  some record, in the state that the records before it have produced, the call fails with
  an error that carries the cause and the database is exactly what it was before the call:
  none of the records before the failing one is applied. More generally, every failed call
  leaves the database as it was.
\<close>

theorem upsert_failure_rolls_back:
  "(\<forall>t pre ps post t1 cs.
      db (schema, table_name) = Some t \<and> to_records df = pre @ ps # post \<and>
      executemany srv (upsert_stmt df table_name unique_key schema) pre t = Inr t1 \<and>
      execute_one srv (upsert_stmt df table_name unique_key schema) ps t1 = Inl cs
      \<longrightarrow> upsert_dataframe_to_postgres srv df table_name db unique_key schema
            = (Inl (UpsertFailed cs), db))
   \<and> (\<forall>e db'. upsert_dataframe_to_postgres srv df table_name db unique_key schema = (Inl e, db')
        \<longrightarrow> db' = db \<and> (\<exists>cs. e = UpsertFailed cs))"
proof (intro conjI allI impI)
  fix t pre ps post t1 cs
  assume a: "db (schema, table_name) = Some t \<and> to_records df = pre @ ps # post \<and>
      executemany srv (upsert_stmt df table_name unique_key schema) pre t = Inr t1 \<and>
      execute_one srv (upsert_stmt df table_name unique_key schema) ps t1 = Inl cs"
  then have "executemany srv (upsert_stmt df table_name unique_key schema) (to_records df) t = Inl cs"
    by (simp add: executemany_append)
  with a show "upsert_dataframe_to_postgres srv df table_name db unique_key schema
            = (Inl (UpsertFailed cs), db)"
    by (simp add: upsert_result)
next
  fix e db'
  assume "upsert_dataframe_to_postgres srv df table_name db unique_key schema = (Inl e, db')"
  then show "db' = db" by (auto simp: upsert_result split: option.splits sum.splits if_splits)
next
  fix e db'
  assume "upsert_dataframe_to_postgres srv df table_name db unique_key schema = (Inl e, db')"
  then show "\<exists>cs. e = UpsertFailed cs"
    by (auto simp: upsert_result split: option.splits sum.splits if_splits)
qed

theorem upsert_failure_rolls_back_witness:
  "upsert_dataframe_to_postgres example_server
     [(''lms_user_id'', [IntV 1, IntV 2, IntV 3]), (''name'', [StrV ''Ada'', StrV [], StrV ''Eve''])]
     ''department_members'' (example_database []) ''lms_user_id'' ''tracking''
   = (Inl (UpsertFailed Rejected), example_database [])"
proof -
  let ?df = "[(''lms_user_id'', [IntV 1, IntV 2, IntV 3]),
              (''name'', [StrV ''Ada'', StrV [], StrV ''Eve''])]"
  let ?stmt = "upsert_stmt ?df ''department_members'' ''lms_user_id'' ''tracking''"
  let ?r1 = "[(''lms_user_id'', IntV 1), (''name'', StrV ''Ada'')]"
  let ?r2 = "[(''lms_user_id'', IntV 2), (''name'', StrV [])]"
  let ?r3 = "[(''lms_user_id'', IntV 3), (''name'', StrV ''Eve'')]"
  have h1: "example_database [] (''tracking'', ''department_members'') = Some []"
    by (simp add: example_database_def)
  have h2: "to_records ?df = [?r1] @ ?r2 # [?r3]"
    by (simp add: to_records_def nrows_def upt_conv_Cons)
  have h3: "executemany example_server ?stmt [?r1] [] = Inr [proposed example_server ?r1]"
    by (simp add: execute_one_def upsert_stmt_def columns_def example_server_def proposed_def)
  have h4: "execute_one example_server ?stmt ?r2 [proposed example_server ?r1] = Inl Rejected"
    by (simp add: execute_one_def upsert_stmt_def columns_def example_server_def proposed_def)
  from upsert_failure_rolls_back [of "example_database []" "''tracking''" "''department_members''"
      ?df example_server "''lms_user_id''"] h1 h2 h3 h4
  show ?thesis by blast
qed

subsection \<open>Running the same batch twice\<close>

lemma upsert_state:
  "snd (upsert_dataframe_to_postgres srv df table_name db unique_key schema) =
     (if to_records df = [] then db
      else case db (schema, table_name) of
        None \<Rightarrow> db
      | Some t \<Rightarrow>
          (case executemany srv (upsert_stmt df table_name unique_key schema) (to_records df) t of
             Inl e \<Rightarrow> db
           | Inr t' \<Rightarrow> db((schema, table_name) \<mapsto> t')))"
  by (simp add: upsert_result split: option.splits sum.splits)

text \<open>
  \<^bold>\<open>C2.\<close> Idempotence does not hold for every batch. A record whose unique key is NULL
  conflicts with no row, so on a server that accepts it every run inserts it again: after
  one run the table has one row, after two runs two.
\<close>

theorem null_key_inserted_twice:
  "map_option length
     (snd (upsert_dataframe_to_postgres lenient_server
             [(''lms_user_id'', [NoneV]), (''name'', [StrV ''Ada''])]
             ''department_members'' (example_database []) ''lms_user_id'' ''tracking'')
        (''tracking'', ''department_members'')) = Some 1
   \<and> map_option length
     (snd (upsert_dataframe_to_postgres lenient_server
             [(''lms_user_id'', [NoneV]), (''name'', [StrV ''Ada''])]
             ''department_members''
             (snd (upsert_dataframe_to_postgres lenient_server
                     [(''lms_user_id'', [NoneV]), (''name'', [StrV ''Ada''])]
                     ''department_members'' (example_database []) ''lms_user_id'' ''tracking''))
             ''lms_user_id'' ''tracking'')
        (''tracking'', ''department_members'')) = Some 2"
  by (simp add: upsert_state example_database_def to_records_def nrows_def execute_one_def
      upsert_stmt_def columns_def lenient_server_def proposed_def conflicts_def)

text \<open>
  \<^bold>\<open>C2, as amended.\<close> For a batch in which every record carries a unique key that is
  not NULL, running the upsert a second time with the same batch leaves the database in
  the state the first run left it in: no row is added, none is changed.
\<close>

theorem upsert_twice_same_state:
  assumes "\<forall>ps \<in> set (to_records df). proposed srv ps unique_key \<noteq> NoneV"
  shows "snd (upsert_dataframe_to_postgres srv df table_name
                (snd (upsert_dataframe_to_postgres srv df table_name db unique_key schema))
                unique_key schema)
       = snd (upsert_dataframe_to_postgres srv df table_name db unique_key schema)"
proof (cases "to_records df = [] \<or> db (schema, table_name) = None")
  case True
  then show ?thesis by (auto simp: upsert_state)
next
  case False
  then obtain t where Some: "db (schema, table_name) = Some t" and recs: "to_records df \<noteq> []"
    by auto
  let ?stmt = "upsert_stmt df table_name unique_key schema"
  show ?thesis
  proof (cases "executemany srv ?stmt (to_records df) t")
    case (Inl e)
    with Some recs show ?thesis by (simp add: upsert_state)
  next
    case (Inr t1)
    let ?db1 = "db((schema, table_name) \<mapsto> t1)"
    from Some Inr recs
    have first: "snd (upsert_dataframe_to_postgres srv df table_name db unique_key schema) = ?db1"
      by (simp add: upsert_state)
    show ?thesis
    proof (cases "executemany srv ?stmt (to_records df) t1")
      case (Inl e)
      with recs show ?thesis unfolding first by (simp add: upsert_state)
    next
      case (Inr t2)
      let ?U = "upsert_row unique_key (update_columns ?stmt)"
      let ?rs = "map (proposed srv) (to_records df)"
      have t1: "t1 = fold ?U ?rs t"
        using executemany_fold [OF \<open>executemany srv ?stmt (to_records df) t = Inr t1\<close>]
        by (simp add: upsert_stmt_fields)
      have t2: "t2 = fold ?U ?rs t1"
        using executemany_fold [OF Inr] by (simp add: upsert_stmt_fields)
      have keys: "\<forall>r \<in> set ?rs. r unique_key \<noteq> NoneV" using assms by simp
      have "fold ?U ?rs (fold ?U ?rs t) = fold ?U ?rs t"
        using fold_upsert_idem [of unique_key "update_columns ?stmt" ?rs t] upsert_stmt_key keys
        by blast
      with t1 t2 have "t2 = t1" by simp
      with Inr recs show ?thesis unfolding first by (simp add: upsert_state)
    qed
  qed
qed

theorem upsert_twice_same_state_witness:
  "snd (upsert_dataframe_to_postgres lenient_server
          [(''lms_user_id'', [IntV 1, IntV 1]), (''name'', [StrV ''Ada'', StrV ''Eve''])]
          ''department_members''
          (snd (upsert_dataframe_to_postgres lenient_server
                  [(''lms_user_id'', [IntV 1, IntV 1]), (''name'', [StrV ''Ada'', StrV ''Eve''])]
                  ''department_members'' (example_database []) ''lms_user_id'' ''tracking''))
          ''lms_user_id'' ''tracking'')
   = snd (upsert_dataframe_to_postgres lenient_server
            [(''lms_user_id'', [IntV 1, IntV 1]), (''name'', [StrV ''Ada'', StrV ''Eve''])]
            ''department_members'' (example_database []) ''lms_user_id'' ''tracking'')"
proof -
  let ?df = "[(''lms_user_id'', [IntV 1, IntV 1]), (''name'', [StrV ''Ada'', StrV ''Eve''])]"
  have h: "\<forall>ps \<in> set (to_records ?df). proposed lenient_server ps ''lms_user_id'' \<noteq> NoneV"
    by (simp add: to_records_def nrows_def upt_conv_Cons proposed_def)
  from upsert_twice_same_state [OF h] show ?thesis .
qed

subsection \<open>Records whose key is already in the table\<close>

lemma first_index_of_key:
  assumes "\<exists>old \<in> set t. old key = k"
  shows "\<exists>i < length t. (t ! i) key = k \<and> (\<forall>j < i. (t ! j) key \<noteq> k)"
  using assms
proof (induction t)
  case Nil
  then show ?case by simp
next
  case (Cons a t)
  show ?case
  proof (cases "a key = k")
    case True
    then have "(0::nat) < length (a # t) \<and> ((a # t) ! 0) key = k \<and> (\<forall>j < 0. ((a # t) ! j) key \<noteq> k)"
      by simp
    then show ?thesis by blast
  next
    case False
    with Cons.prems have "\<exists>old \<in> set t. old key = k" by auto
    from Cons.IH [OF this] obtain i where
      i: "i < length t" "(t ! i) key = k" "\<forall>j < i. (t ! j) key \<noteq> k" by blast
    have "\<forall>j < Suc i. ((a # t) ! j) key \<noteq> k"
    proof (intro allI impI)
      fix j assume "j < Suc i"
      then show "((a # t) ! j) key \<noteq> k" using False i(3) by (cases j) auto
    qed
    with i(1,2) have "Suc i < length (a # t) \<and> ((a # t) ! Suc i) key = k \<and>
        (\<forall>j < Suc i. ((a # t) ! j) key \<noteq> k)" by simp
    then show ?thesis by blast
  qed
qed

lemma upsert_row_at:
  assumes "i < length t" and "(t ! i) key = new key" and "new key \<noteq> NoneV"
    and "\<forall>j < i. (t ! j) key \<noteq> new key"
  shows "upsert_row key cols new t = t[i := do_update cols new (t ! i)]"
  using assms
proof (induction t arbitrary: i)
  case Nil
  then show ?case by simp
next
  case (Cons a t)
  show ?case
  proof (cases i)
    case 0
    with Cons.prems show ?thesis by (simp add: conflicts_def)
  next
    case (Suc n)
    with Cons.prems(4) have "((a # t) ! 0) key \<noteq> new key" by blast
    then have a: "\<not> conflicts key new a" by (simp add: conflicts_def)
    from Suc Cons.prems have n: "n < length t" "(t ! n) key = new key" by simp_all
    have "\<forall>j < n. (t ! j) key \<noteq> new key"
    proof (intro allI impI)
      fix j assume "j < n"
      then have "Suc j < i" using Suc by simp
      with Cons.prems(4) have "((a # t) ! Suc j) key \<noteq> new key" by blast
      then show "(t ! j) key \<noteq> new key" by simp
    qed
    from Cons.IH [OF n Cons.prems(3) this] a Suc show ?thesis by simp
  qed
qed

lemma fold_keys_prefix:
  assumes "key \<notin> set cols"
  shows "\<exists>ex. map (\<lambda>r. r key) (fold (upsert_row key cols) rs t) = map (\<lambda>r. r key) t @ ex"
proof (induction rs arbitrary: t)
  case Nil
  then show ?case by simp
next
  case (Cons r rs)
  from Cons.IH [of "upsert_row key cols r t"] obtain ex where
    "map (\<lambda>r. r key) (fold (upsert_row key cols) rs (upsert_row key cols r t))
       = map (\<lambda>r. r key) (upsert_row key cols r t) @ ex" by blast
  then show ?case unfolding upsert_row_keys [OF assms] by (cases "\<exists>old \<in> set t. conflicts key r old") auto
qed

lemma fold_keeps_positions:
  assumes "key \<notin> set cols" and "i < length t"
  shows "length t \<le> length (fold (upsert_row key cols) rs t)"
    and "(fold (upsert_row key cols) rs t ! i) key = (t ! i) key"
proof -
  let ?t1 = "fold (upsert_row key cols) rs t"
  from fold_keys_prefix [OF assms(1), of rs t] obtain ex where
    ex: "map (\<lambda>r. r key) ?t1 = map (\<lambda>r. r key) t @ ex" by blast
  then have "length (map (\<lambda>r. r key) ?t1) = length (map (\<lambda>r. r key) t @ ex)" by simp
  then show len: "length t \<le> length ?t1" by simp
  from ex have "map (\<lambda>r. r key) ?t1 ! i = (map (\<lambda>r. r key) t @ ex) ! i" by simp
  with assms(2) len show "(?t1 ! i) key = (t ! i) key" by (simp add: nth_append)
qed

lemma count_key_map:
  "length [x \<leftarrow> t. x key = k] = length [v \<leftarrow> map (\<lambda>r. r key) t. v = k]"
  by (induction t) auto

lemma upsert_row_count:
  assumes "key \<notin> set cols" and "k \<noteq> NoneV" and "\<exists>old \<in> set t. old key = k"
  shows "length [x \<leftarrow> upsert_row key cols new t. x key = k] = length [x \<leftarrow> t. x key = k]"
proof (cases "\<exists>old \<in> set t. conflicts key new old")
  case True
  then show ?thesis unfolding count_key_map upsert_row_keys [OF assms(1)] by simp
next
  case False
  with assms(2,3) have "new key \<noteq> k" by (auto simp: conflicts_def)
  with False show ?thesis unfolding count_key_map upsert_row_keys [OF assms(1)] by simp
qed

lemma fold_count:
  assumes "key \<notin> set cols" and "k \<noteq> NoneV" and "\<exists>old \<in> set t. old key = k"
  shows "length [x \<leftarrow> fold (upsert_row key cols) rs t. x key = k] = length [x \<leftarrow> t. x key = k]"
  using assms(3)
proof (induction rs arbitrary: t)
  case Nil
  then show ?case by simp
next
  case (Cons r rs)
  have "\<exists>old \<in> set (upsert_row key cols r t). old key = k"
    using upsert_row_keeps_key [of key cols t k r] assms(1) Cons.prems by simp
  from Cons.IH [OF this] upsert_row_count [of key cols k t r] assms(1,2) Cons.prems
  show ?case by simp
qed

lemma upsert_row_nth_other:
  assumes "i < length t" and "(t ! i) key \<noteq> new key"
  shows "upsert_row key cols new t ! i = t ! i"
  using assms
proof (induction t arbitrary: i)
  case Nil
  then show ?case by simp
next
  case (Cons a t)
  show ?case
  proof (cases i)
    case 0
    with Cons.prems show ?thesis by (simp add: conflicts_def)
  next
    case (Suc n)
    with Cons.prems Cons.IH [of n] show ?thesis by simp
  qed
qed

lemma fold_nth_other:
  assumes "key \<notin> set cols" and "i < length t" and "\<forall>r \<in> set rs. r key \<noteq> (t ! i) key"
  shows "fold (upsert_row key cols) rs t ! i = t ! i"
  using assms(2,3)
proof (induction rs arbitrary: t)
  case Nil
  then show ?case by simp
next
  case (Cons r rs)
  let ?t1 = "upsert_row key cols r t"
  have one: "?t1 = fold (upsert_row key cols) [r] t" by simp
  have len: "length t \<le> length ?t1"
    unfolding one by (rule fold_keeps_positions(1) [OF assms(1) Cons.prems(1)])
  have keyi: "(?t1 ! i) key = (t ! i) key"
    unfolding one by (rule fold_keeps_positions(2) [OF assms(1) Cons.prems(1)])
  from Cons.prems(2) have "(t ! i) key \<noteq> r key" by auto
  with upsert_row_nth_other [of i t key r cols] Cons.prems(1) have same: "?t1 ! i = t ! i"
    by blast
  from Cons.prems(1) len have i1: "i < length ?t1" by simp
  from Cons.prems(2) keyi have "\<forall>q \<in> set rs. q key \<noteq> (?t1 ! i) key" by simp
  from Cons.IH [OF i1 this] same show ?case by simp
qed

lemma fold_row_at:
  assumes "key \<notin> set cols" and "k \<noteq> NoneV"
    and "i < length t" and "(t ! i) key = k" and "\<forall>j < i. (t ! j) key \<noteq> k"
  shows "fold (upsert_row key cols) rs t ! i
       = fold (\<lambda>r old. if r key = k then do_update cols r old else old) rs (t ! i)"
  using assms(3,4,5)
proof (induction rs arbitrary: t)
  case Nil
  then show ?case by simp
next
  case (Cons r rs)
  let ?t1 = "upsert_row key cols r t"
  have one: "?t1 = fold (upsert_row key cols) [r] t" by simp
  have len: "length t \<le> length ?t1"
    unfolding one by (rule fold_keeps_positions(1) [OF assms(1) Cons.prems(1)])
  have keys: "(?t1 ! j) key = (t ! j) key" if "j < length t" for j
    unfolding one by (rule fold_keeps_positions(2) [OF assms(1) that])
  from Cons.prems(1) len have i1: "i < length ?t1" by simp
  have k1: "(?t1 ! i) key = k" using keys [OF Cons.prems(1)] Cons.prems(2) by simp
  have before: "\<forall>j < i. (?t1 ! j) key \<noteq> k"
  proof (intro allI impI)
    fix j assume j: "j < i"
    with Cons.prems(1) have "j < length t" by simp
    from keys [OF this] Cons.prems(3) j show "(?t1 ! j) key \<noteq> k" by simp
  qed
  have row: "?t1 ! i = (if r key = k then do_update cols r (t ! i) else t ! i)"
  proof (cases "r key = k")
    case True
    with Cons.prems(2) have same: "(t ! i) key = r key" by simp
    from True assms(2) have nn: "r key \<noteq> NoneV" by simp
    from True Cons.prems(3) have first: "\<forall>j < i. (t ! j) key \<noteq> r key" by simp
    from upsert_row_at [of i t key r cols] Cons.prems(1) same nn first
    have "?t1 = t[i := do_update cols r (t ! i)]" by blast
    with True Cons.prems(1) show ?thesis by simp
  next
    case False
    with Cons.prems(2) have "(t ! i) key \<noteq> r key" by simp
    with upsert_row_nth_other [of i t key r cols] Cons.prems(1) False show ?thesis by simp
  qed
  from Cons.IH [OF i1 k1 before] row show ?case by simp
qed

lemma fold_update_last:
  "fold (\<lambda>r old. if r key = k then do_update cols r old else old) rs x
     = (if [q \<leftarrow> rs. q key = k] = [] then x else do_update cols (last [q \<leftarrow> rs. q key = k]) x)"
  by (induction rs arbitrary: x) (auto simp: do_update_twice)

lemma last_filter_map:
  assumes "[p \<leftarrow> ps. P (f p)] \<noteq> []"
  shows "last [q \<leftarrow> map f ps. P q] = f (last [p \<leftarrow> ps. P (f p)])"
  using assms by (simp add: filter_map comp_def last_map)

text \<open>
  \<^bold>\<open>C3.\<close> In a successful call, a record whose unique key (not NULL) is already in the
  destination table is applied as an update in place. At the moment it is executed, the
  row at the position where the table held that key before the call gets every batch
  column other than the key set to the record's value, and nothing else changes. In the
  table that the call commits, that row, still at its position, holds in every batch
  column other than the key the value of the last record of the batch with that key (the
  record itself, when no later record has its key) and in every other column what it held
  before the call; no row with that key has been added, and a row of the table whose key
  no record of the batch carries is what it was before the call.
\<close>

theorem upsert_updates_existing_row:
  assumes "upsert_dataframe_to_postgres srv df table_name db unique_key schema = (Inr v, db')"
    and "db (schema, table_name) = Some t"
    and "to_records df = pre @ ps # post"
    and "proposed srv ps unique_key \<noteq> NoneV"
    and "\<exists>old \<in> set t. old unique_key = proposed srv ps unique_key"
  shows "\<exists>t1 t' i.
           executemany srv (upsert_stmt df table_name unique_key schema) pre t = Inr t1 \<and>
           i < length t \<and> length t \<le> length t1 \<and>
           (t ! i) unique_key = proposed srv ps unique_key \<and>
           (\<forall>j < i. (t ! j) unique_key \<noteq> proposed srv ps unique_key) \<and>
           (t1 ! i) unique_key = proposed srv ps unique_key \<and>
           execute_one srv (upsert_stmt df table_name unique_key schema) ps t1
             = Inr (t1[i := (\<lambda>c. if c \<in> set (columns df) \<and> c \<noteq> unique_key
                                  then proposed srv ps c else (t1 ! i) c)]) \<and>
           db' = db((schema, table_name) \<mapsto> t') \<and> length t \<le> length t' \<and>
           t' ! i = (\<lambda>c. if c \<in> set (columns df) \<and> c \<noteq> unique_key
                          then proposed srv
                                 (last [q \<leftarrow> to_records df.
                                          proposed srv q unique_key = proposed srv ps unique_key]) c
                          else (t ! i) c) \<and>
           ((\<forall>q \<in> set post. proposed srv q unique_key \<noteq> proposed srv ps unique_key) \<longrightarrow>
              (\<forall>c. c \<in> set (columns df) \<and> c \<noteq> unique_key \<longrightarrow> (t' ! i) c = proposed srv ps c)) \<and>
           (\<forall>j < length t.
              (\<forall>q \<in> set (to_records df). proposed srv q unique_key \<noteq> (t ! j) unique_key) \<longrightarrow>
              t' ! j = t ! j) \<and>
           length [x \<leftarrow> t'. x unique_key = proposed srv ps unique_key]
             = length [x \<leftarrow> t. x unique_key = proposed srv ps unique_key]"
proof -
  let ?stmt = "upsert_stmt df table_name unique_key schema"
  let ?cols = "update_columns ?stmt"
  let ?U = "upsert_row unique_key ?cols"
  let ?new = "proposed srv ps"
  let ?k = "proposed srv ps unique_key"
  let ?R = "map (proposed srv) (to_records df)"
  let ?same = "[q \<leftarrow> to_records df. proposed srv q unique_key = ?k]"
  have key: "unique_key \<notin> set ?cols" by (rule upsert_stmt_key)
  from assms(1,2) obtain t' where
    all: "executemany srv ?stmt (to_records df) t = Inr t'"
    and db': "db' = db((schema, table_name) \<mapsto> t')"
    by (auto simp: upsert_result split: sum.splits if_splits)
  from all assms(3) obtain t1 t2 where
    t1: "executemany srv ?stmt pre t = Inr t1"
    and t2: "execute_one srv ?stmt ps t1 = Inr t2"
    by (auto simp: executemany_append split: sum.splits)
  from t2 have t2_eq: "t2 = ?U ?new t1"
    by (auto simp: execute_one_def upsert_stmt_fields split: if_splits)
  have t1_eq: "t1 = fold ?U (map (proposed srv) pre) t"
    using executemany_fold [OF t1] by (simp add: upsert_stmt_fields)
  have t'_eq: "t' = fold ?U ?R t"
    using executemany_fold [OF all] by (simp add: upsert_stmt_fields)
  from first_index_of_key [OF assms(5)] obtain i where
    i: "i < length t" "(t ! i) unique_key = ?k" "\<forall>j < i. (t ! j) unique_key \<noteq> ?k"
    by blast
  have len: "length t \<le> length t1"
    unfolding t1_eq by (rule fold_keeps_positions(1) [OF key i(1)])
  have len': "length t \<le> length t'"
    unfolding t'_eq by (rule fold_keeps_positions(1) [OF key i(1)])
  have same: "(t1 ! j) unique_key = (t ! j) unique_key" if "j < length t" for j
    unfolding t1_eq by (rule fold_keeps_positions(2) [OF key that])
  have i1: "(t1 ! i) unique_key = ?k" using same [OF i(1)] i(2) by simp
  have before: "\<forall>j < i. (t1 ! j) unique_key \<noteq> ?k"
  proof (intro allI impI)
    fix j assume j: "j < i"
    with i(1) have "j < length t" by simp
    from same [OF this] i(3) j show "(t1 ! j) unique_key \<noteq> ?k" by simp
  qed
  from i(1) len have "i < length t1" by simp
  with upsert_row_at [of i t1 unique_key ?new ?cols] i1 assms(4) before
  have "?U ?new t1 = t1[i := do_update ?cols ?new (t1 ! i)]" by blast
  moreover have "do_update ?cols ?new (t1 ! i)
      = (\<lambda>c. if c \<in> set (columns df) \<and> c \<noteq> unique_key then ?new c else (t1 ! i) c)"
    by (rule ext) (simp add: do_update_def upsert_stmt_fields)
  ultimately have step: "execute_one srv ?stmt ps t1
      = Inr (t1[i := (\<lambda>c. if c \<in> set (columns df) \<and> c \<noteq> unique_key then ?new c else (t1 ! i) c)])"
    using t2 t2_eq by simp
  have ne: "?same \<noteq> []" using assms(3) by (simp add: filter_empty_conv)
  have "t' ! i = fold (\<lambda>r old. if r unique_key = ?k then do_update ?cols r old else old) ?R (t ! i)"
    unfolding t'_eq
    using fold_row_at [of unique_key ?cols ?k i t ?R] key assms(4) i by blast
  also have "\<dots> = do_update ?cols (last [q \<leftarrow> ?R. q unique_key = ?k]) (t ! i)"
    using ne by (simp add: fold_update_last filter_map comp_def)
  also have "last [q \<leftarrow> ?R. q unique_key = ?k] = proposed srv (last ?same)"
    using ne by (simp add: filter_map comp_def last_map)
  finally have final: "t' ! i = (\<lambda>c. if c \<in> set (columns df) \<and> c \<noteq> unique_key
                          then proposed srv (last ?same) c else (t ! i) c)"
    by (simp add: do_update_def upsert_stmt_fields)
  have alone: "\<forall>c. c \<in> set (columns df) \<and> c \<noteq> unique_key \<longrightarrow> (t' ! i) c = ?new c"
    if "\<forall>q \<in> set post. proposed srv q unique_key \<noteq> ?k"
  proof -
    from that have "[q \<leftarrow> post. proposed srv q unique_key = ?k] = []"
      by (simp add: filter_empty_conv)
    then have "last ?same = ps" using assms(3) by simp
    with final show ?thesis by simp
  qed
  have others: "\<forall>j < length t.
      (\<forall>q \<in> set (to_records df). proposed srv q unique_key \<noteq> (t ! j) unique_key) \<longrightarrow> t' ! j = t ! j"
  proof (intro allI impI)
    fix j assume j: "j < length t"
      and no: "\<forall>q \<in> set (to_records df). proposed srv q unique_key \<noteq> (t ! j) unique_key"
    then have "\<forall>r \<in> set ?R. r unique_key \<noteq> (t ! j) unique_key" by simp
    with fold_nth_other [of unique_key ?cols j t ?R] key j show "t' ! j = t ! j"
      unfolding t'_eq by blast
  qed
  have count: "length [x \<leftarrow> t'. x unique_key = ?k] = length [x \<leftarrow> t. x unique_key = ?k]"
    unfolding t'_eq
    using fold_count [of unique_key ?cols ?k t] key assms(4,5) by simp
  from t1 i len i1 step db' len' final alone others count show ?thesis by blast
qed

theorem upsert_updates_existing_row_witness:
  "\<exists>t'. snd (upsert_dataframe_to_postgres lenient_server
               [(''lms_user_id'', [IntV 1]), (''name'', [StrV ''Ada''])]
               ''department_members'' (example_database [example_row]) ''lms_user_id'' ''tracking'')
            (''tracking'', ''department_members'') = Some t'
        \<and> (t' ! 0) ''lms_user_id'' = IntV 1 \<and> (t' ! 0) ''name'' = StrV ''Ada''
        \<and> (t' ! 0) ''team'' = StrV ''Ops''
        \<and> length [x \<leftarrow> t'. x ''lms_user_id'' = IntV 1] = 1"
proof -
  let ?df = "[(''lms_user_id'', [IntV 1]), (''name'', [StrV ''Ada''])]"
  let ?ps = "[(''lms_user_id'', IntV 1), (''name'', StrV ''Ada'')]"
  let ?db = "example_database [example_row]"
  obtain v db' where run: "upsert_dataframe_to_postgres lenient_server ?df
      ''department_members'' ?db ''lms_user_id'' ''tracking'' = (Inr v, db')"
    by (simp add: upsert_result example_database_def to_records_def nrows_def execute_one_def
        upsert_stmt_def columns_def lenient_server_def)
  have h2: "?db (''tracking'', ''department_members'') = Some [example_row]"
    by (simp add: example_database_def)
  have recs: "to_records ?df = [?ps]" by (simp add: to_records_def nrows_def)
  have h3: "to_records ?df = [] @ ?ps # []" using recs by simp
  have k: "proposed lenient_server ?ps ''lms_user_id'' = IntV 1"
    by (simp add: proposed_def)
  have nm: "proposed lenient_server ?ps ''name'' = StrV ''Ada''"
    by (simp add: proposed_def)
  have h4: "proposed lenient_server ?ps ''lms_user_id'' \<noteq> NoneV"
    by (simp add: k)
  have h5: "\<exists>old \<in> set [example_row]. old ''lms_user_id'' = proposed lenient_server ?ps ''lms_user_id''"
    by (simp add: k example_row_def)
  from upsert_updates_existing_row [OF run h2 h3 h4 h5] obtain t' i where
    r: "db' = ?db((''tracking'', ''department_members'') \<mapsto> t')"
       "i < length [example_row]"
       "t' ! i = (\<lambda>c. if c \<in> set (columns ?df) \<and> c \<noteq> ''lms_user_id''
                      then proposed lenient_server
                             (last [q \<leftarrow> to_records ?df. proposed lenient_server q ''lms_user_id''
                                      = proposed lenient_server ?ps ''lms_user_id'']) c
                      else ([example_row] ! i) c)"
       "length [x \<leftarrow> t'. x ''lms_user_id'' = proposed lenient_server ?ps ''lms_user_id'']
          = length [x \<leftarrow> [example_row]. x ''lms_user_id'' = proposed lenient_server ?ps ''lms_user_id'']"
    by blast
  from r(2) have i: "i = 0" by simp
  have lastps: "last [q \<leftarrow> [?ps]. proposed lenient_server q ''lms_user_id''
                                = proposed lenient_server ?ps ''lms_user_id''] = ?ps"
    by simp
  have first: "[example_row] ! 0 = example_row" by simp
  have row: "t' ! 0 = (\<lambda>c. if c \<in> set (columns ?df) \<and> c \<noteq> ''lms_user_id''
                           then proposed lenient_server ?ps c else example_row c)"
    using r(3) unfolding i recs lastps first .
  have "(t' ! 0) ''lms_user_id'' = IntV 1" unfolding row by (simp add: example_row_def)
  moreover have "(t' ! 0) ''name'' = StrV ''Ada''" unfolding row by (simp add: columns_def nm)
  moreover have "(t' ! 0) ''team'' = StrV ''Ops''"
    unfolding row by (simp add: columns_def example_row_def)
  moreover have "length [x \<leftarrow> t'. x ''lms_user_id'' = IntV 1] = 1"
    using r(4) by (simp add: k example_row_def)
  ultimately show ?thesis using run r(1) by simp
qed

subsection \<open>The value returned\<close>

text \<open>
  \<^bold>\<open>C9.\<close> The function has no \<^verbatim>\<open>return\<close> statement: a successful call on a batch of one
  record yields \<^verbatim>\<open>None\<close>, not the number 1.
\<close>

theorem upsert_returns_none_not_count:
  "fst (upsert_dataframe_to_postgres lenient_server
          [(''lms_user_id'', [IntV 1]), (''name'', [StrV ''Ada''])]
          ''department_members'' (example_database []) ''lms_user_id'' ''tracking'')
     = Inr PyNone
   \<and> length (to_records [(''lms_user_id'', [IntV 1]), (''name'', [StrV ''Ada''])]) = 1
   \<and> PyNone \<noteq> PyInt 1"
  by (simp add: upsert_result example_database_def to_records_def nrows_def execute_one_def
      upsert_stmt_def columns_def lenient_server_def)

text \<open>
  \<^bold>\<open>C9, as amended.\<close> A successful call returns \<^verbatim>\<open>None\<close>; it has executed the statement
  for every record of the batch and committed the resulting table.
\<close>

theorem upsert_success_returns_none:
  assumes "upsert_dataframe_to_postgres srv df table_name db unique_key schema = (Inr v, db')"
  shows "v = PyNone \<and>
         (\<exists>t t'. db (schema, table_name) = Some t \<and>
            executemany srv (upsert_stmt df table_name unique_key schema) (to_records df) t = Inr t' \<and>
            db' = db((schema, table_name) \<mapsto> t'))"
  using assms by (auto simp: upsert_result split: option.splits sum.splits if_splits)

theorem upsert_success_returns_none_witness:
  "\<exists>t'. upsert_dataframe_to_postgres lenient_server
          [(''lms_user_id'', [IntV 1]), (''name'', [StrV ''Ada''])]
          ''department_members'' (example_database []) ''lms_user_id'' ''tracking''
        = (Inr PyNone, (example_database [])((''tracking'', ''department_members'') \<mapsto> t'))"
proof -
  let ?df = "[(''lms_user_id'', [IntV 1]), (''name'', [StrV ''Ada''])]"
  obtain v db' where run: "upsert_dataframe_to_postgres lenient_server ?df
          ''department_members'' (example_database []) ''lms_user_id'' ''tracking'' = (Inr v, db')"
    by (simp add: upsert_result example_database_def to_records_def nrows_def execute_one_def
      upsert_stmt_def columns_def lenient_server_def)
  from upsert_success_returns_none [OF run] run show ?thesis by auto
qed

end
